theory Spec2Isabelle
  imports Main "HOL-Library.AList" "HOL-Library.Char_ord" "HOL-Library.List_Lexorder"
    "HOL-Library.Product_Lexorder" "HOL-Library.Word"
begin

section \<open>Naming utilities\<close>

text \<open>
  Go strings are byte sequences; a \<^typ>\<open>string\<close> is a list of bytes, and the order on
  strings (\<open>HOL-Library.List_Lexorder\<close> over \<open>HOL-Library.Char_ord\<close>) is the bytewise
  lexicographic order of Go's \<^verbatim>\<open><\<close> on strings.

  \<^verbatim>\<open>AS3NameFormatter\<close> builds
  \<^verbatim>\<open>strings.NewReplacer(".", "_", ":", "_", "/", "_", "%", ".", "-", "_", "=", "_")\<close>.
  Every old and new string is a single byte, so the replacer rewrites the name byte by
  byte, in one pass, each byte through the table.
\<close>

definition as3_replace_byte :: "char \<Rightarrow> char" where
  "as3_replace_byte c =
     (if c = CHR ''.'' then CHR ''_''
      else if c = CHR '':'' then CHR ''_''
      else if c = CHR ''/'' then CHR ''_''
      else if c = CHR ''%'' then CHR ''.''
      else if c = CHR ''-'' then CHR ''_''
      else if c = CHR ''='' then CHR ''_''
      else c)"

definition AS3NameFormatter :: "string \<Rightarrow> string" where
  "AS3NameFormatter name = map as3_replace_byte name"

section \<open>Virtual servers\<close>

text \<open>
  The struct declarations of the package (\<^verbatim>\<open>Virtual\<close>, \<^verbatim>\<open>ProfileRef\<close>, \<^verbatim>\<open>Policy\<close>,
  \<^verbatim>\<open>Rule\<close>, ...) are not part of the source file; the records below carry the fields
  the functions of \<^verbatim>\<open>resourceConfig.go\<close> read and write, under the names used there
  (with a prefix per struct), and leave every other field to the record extension.
\<close>

record nameRef =
  nr_Name :: string
  nr_Partition :: string

record virtualAddress =
  BindAddr :: string
  Port :: "32 word"

record ProfileRef =
  pr_Name :: string
  pr_Partition :: string
  pr_Context :: string
  pr_Namespace :: string

record Virtual =
  v_Name :: string
  v_Partition :: string
  v_Destination :: string
  v_Enabled :: bool
  v_VirtualAddress :: "virtualAddress option"
  v_Profiles :: "ProfileRef list"
  v_Policies :: "nameRef list"
  v_IRules :: "string list"

subsection \<open>\<^verbatim>\<open>split_ip_with_route_domain\<close> and \<^verbatim>\<open>SetVirtualAddress\<close>\<close>

text \<open>
  The regular expression \<^verbatim>\<open>^([^%]*)%(\d+)$\<close> matches a whole address exactly when it
  is a percent-free prefix, one percent sign and a non-empty run of ASCII digits (Go's
  \<^verbatim>\<open>$\<close> is the end of the text, a negated class also matches a newline, and an
  invalid byte is read as one rune): group 1 is the prefix, group 2 the digits.
\<close>

definition is_digit :: "char \<Rightarrow> bool" where
  "is_digit c = (CHR ''0'' \<le> c \<and> c \<le> CHR ''9'')"

definition split_ip_with_route_domain :: "string \<Rightarrow> string \<times> string" where
  "split_ip_with_route_domain address =
     (case dropWhile (\<lambda>c. c \<noteq> CHR ''%'') address of
        [] \<Rightarrow> (address, [])
      | _ # rd \<Rightarrow>
          if rd \<noteq> [] \<and> list_all is_digit rd
          then (takeWhile (\<lambda>c. c \<noteq> CHR ''%'') address, rd)
          else (address, []))"

text \<open>\<^verbatim>\<open>%d\<close> of \<^verbatim>\<open>fmt.Sprintf\<close> on an \<^verbatim>\<open>int32\<close>: the signed value in decimal.\<close>

definition digit_char :: "nat \<Rightarrow> char" where
  "digit_char n = ''0123456789'' ! n"

fun nat_digits :: "nat \<Rightarrow> string" where
  "nat_digits n =
     (if n < 10 then [digit_char n] else nat_digits (n div 10) @ [digit_char (n mod 10)])"

declare nat_digits.simps [simp del]

definition fmt_d :: "int \<Rightarrow> string" where
  "fmt_d i = (if i < 0 then CHR ''-'' # nat_digits (nat (- i)) else nat_digits (nat i))"

text \<open>
  \<^verbatim>\<open>net.ParseIP\<close> and \<^verbatim>\<open>IP.To4\<close> belong to Go's standard library. They are parameters
  of the model: \<open>ParseIP s\<close> is \<open>None\<close> where \<^verbatim>\<open>net.ParseIP\<close> returns nil, and
  \<open>To4 a\<close> is \<open>None\<close> where \<^verbatim>\<open>a.To4()\<close> is nil.
\<close>

definition SetVirtualAddress ::
  "(string \<Rightarrow> 'ip option) \<Rightarrow> ('ip \<Rightarrow> 'ip option) \<Rightarrow> string \<Rightarrow> 32 word \<Rightarrow> Virtual \<Rightarrow> Virtual"
where
  "SetVirtualAddress ParseIP To4 bindAddr port v0 =
     (let v = v0\<lparr>v_Destination := []\<rparr> in
      if bindAddr = [] \<and> port = 0 then v\<lparr>v_VirtualAddress := None\<rparr>
      else
        let v = v\<lparr>v_VirtualAddress := Some \<lparr>BindAddr = bindAddr, Port = port\<rparr>\<rparr>;
            (ip, rd0) = split_ip_with_route_domain bindAddr;
            rd = (if length rd0 > 0 then ''%'' @ rd0 else rd0)
        in case ParseIP ip of
             None \<Rightarrow> v
           | Some addr \<Rightarrow>
               (if To4 addr \<noteq> None
                then v\<lparr>v_Destination :=
                        ''/'' @ v_Partition v @ ''/'' @ ip @ rd @ '':'' @ fmt_d (sint port)\<rparr>
                else v\<lparr>v_Destination :=
                        ''/'' @ v_Partition v @ ''/'' @ ip @ rd @ ''.'' @ fmt_d (sint port)\<rparr>))"

text \<open>
  A reader of dotted-decimal IPv4 addresses (four fields of one to three digits, each at
  most 255), to run the model on concrete addresses: it stands for \<^verbatim>\<open>net.ParseIP\<close> on
  the addresses it accepts, all of which are IPv4.
\<close>

fun split_on :: "char \<Rightarrow> string \<Rightarrow> string list" where
  "split_on sep [] = [[]]"
| "split_on sep (c # cs) =
     (if c = sep then [] # split_on sep cs
      else (case split_on sep cs of [] \<Rightarrow> [[c]] | w # ws \<Rightarrow> (c # w) # ws))"

definition digit_val :: "char \<Rightarrow> nat" where
  "digit_val c = of_char c - of_char CHR ''0''"

definition decimal_field :: "string \<Rightarrow> nat option" where
  "decimal_field w =
     (if w \<noteq> [] \<and> length w \<le> 3 \<and> list_all is_digit w
         \<and> foldl (\<lambda>n c. 10 * n + digit_val c) 0 w \<le> 255
      then Some (foldl (\<lambda>n c. 10 * n + digit_val c) 0 w) else None)"

definition dotted_quad :: "string \<Rightarrow> nat list option" where
  "dotted_quad s =
     (let fs = map decimal_field (split_on CHR ''.'' s)
      in if length fs = 4 \<and> list_all (\<lambda>f. f \<noteq> None) fs then Some (map the fs) else None)"

subsection \<open>\<^verbatim>\<open>AddOrUpdateProfile\<close>\<close>

text \<open>
  \<^verbatim>\<open>sort.Search(n, f)\<close> of Go's standard library: the binary search
  \<^verbatim>\<open>i, j := 0, n; for i < j { h := int(uint(i+j) >> 1); if !f(h) { i = h + 1 } else { j = h } }; return i\<close>.
\<close>

function search_loop :: "(nat \<Rightarrow> bool) \<Rightarrow> nat \<Rightarrow> nat \<Rightarrow> nat" where
  "search_loop f i j =
     (if i < j
      then (let h = (i + j) div 2
            in if \<not> f h then search_loop f (h + 1) j else search_loop f i h)
      else i)"
  by pat_completeness auto
termination
  by (relation "measure (\<lambda>(f, i, j). j - i)") auto

declare search_loop.simps [simp del]

definition sort_Search :: "nat \<Rightarrow> (nat \<Rightarrow> bool) \<Rightarrow> nat" where
  "sort_Search n f = search_loop f 0 n"

text \<open>\<^verbatim>\<open>ProfileRefs.Less\<close>, on two profiles rather than two indices.\<close>

definition ProfileRefs_Less :: "ProfileRef \<Rightarrow> ProfileRef \<Rightarrow> bool" where
  "ProfileRefs_Less a b =
     (pr_Partition a < pr_Partition b
      \<or> (pr_Partition a = pr_Partition b \<and> pr_Name a < pr_Name b))"

text \<open>
  The function returns the flag and updates the receiver; the model returns both. The
  insertion \<^verbatim>\<open>append\<close>, \<^verbatim>\<open>copy(v.Profiles[i+1:], v.Profiles[i:])\<close>,
  \<^verbatim>\<open>v.Profiles[i] = prof\<close> leaves the old elements before and after the new one.
\<close>

definition AddOrUpdateProfile :: "Virtual \<Rightarrow> ProfileRef \<Rightarrow> Virtual \<times> bool" where
  "AddOrUpdateProfile v prof =
     (let keyFunc = (\<lambda>i. pr_Partition (v_Profiles v ! i) > pr_Partition prof
                        \<or> (pr_Partition (v_Profiles v ! i) = pr_Partition prof
                            \<and> pr_Name (v_Profiles v ! i) \<ge> pr_Name prof));
          profCt = length (v_Profiles v);
          i = sort_Search profCt keyFunc
      in if i < profCt \<and> pr_Partition (v_Profiles v ! i) = pr_Partition prof
              \<and> pr_Name (v_Profiles v ! i) = pr_Name prof
         then (if pr_Context (v_Profiles v ! i) = pr_Context prof
               then (v, False)
               else (v\<lparr>v_Profiles := (v_Profiles v)[i := prof]\<rparr>, True))
         else (v\<lparr>v_Profiles := take i (v_Profiles v) @ [prof] @ drop i (v_Profiles v)\<rparr>, True))"

text \<open>A sequence of calls on one virtual server, the flags dropped.\<close>

definition add_profiles :: "Virtual \<Rightarrow> ProfileRef list \<Rightarrow> Virtual" where
  "add_profiles v profs = fold (\<lambda>p w. fst (AddOrUpdateProfile w p)) profs v"

text \<open>
  The invariant of the profile list: sorted by \<^verbatim>\<open>Less\<close> (no later element is less
  than an earlier one), and no two elements with the same partition and name.
\<close>

definition profile_key :: "ProfileRef \<Rightarrow> string \<times> string" where
  "profile_key p = (pr_Partition p, pr_Name p)"

definition profiles_sorted :: "ProfileRef list \<Rightarrow> bool" where
  "profiles_sorted ps = sorted_wrt (\<lambda>a b. \<not> ProfileRefs_Less b a) ps"

definition profiles_unique :: "ProfileRef list \<Rightarrow> bool" where
  "profiles_unique ps = distinct (map profile_key ps)"

definition keyFunc_of :: "ProfileRef list \<Rightarrow> ProfileRef \<Rightarrow> nat \<Rightarrow> bool" where
  "keyFunc_of ps prof i = (pr_Partition (ps ! i) > pr_Partition prof
                        \<or> (pr_Partition (ps ! i) = pr_Partition prof
                            \<and> pr_Name (ps ! i) \<ge> pr_Name prof))"

text \<open>Example values.\<close>

definition prof_of :: "string \<Rightarrow> string \<Rightarrow> string \<Rightarrow> ProfileRef" where
  "prof_of part name ctx =
     \<lparr>pr_Name = name, pr_Partition = part, pr_Context = ctx, pr_Namespace = ''ns''\<rparr>"

definition virtual_with :: "ProfileRef list \<Rightarrow> Virtual" where
  "virtual_with ps =
     \<lparr>v_Name = ''vs'', v_Partition = ''test'', v_Destination = [], v_Enabled = True,
      v_VirtualAddress = None, v_Profiles = ps, v_Policies = [], v_IRules = []\<rparr>"

section \<open>Resource configurations\<close>

text \<open>
  Pointers. A \<^verbatim>\<open>*Rule\<close> and a \<^verbatim>\<open>*action\<close> are addresses into a store, \<open>None\<close> being
  nil. Rule objects are shared between the policies that list them, the merge records
  and the snapshot of the previous generation, and the functions below write to them in
  place, so they live in the store. Actions are compared by address when a rule is
  unmerged and are never changed (the name of an action or condition is blanked for a
  comparison and restored at once), so the store holds them too; the conditions of a
  rule are never compared by address and are kept by value in the rule.

  Slices. Here a slice is modelled by the sequence of its elements, and a struct held
  in a map or slice by its value. This is the view through one slice
  header: what the receiver of a method reads, and what the configuration reads once
  \<^verbatim>\<open>SetPolicy\<close> has stored the header back, as \<^verbatim>\<open>MergeRules\<close> and \<^verbatim>\<open>UnmergeRule\<close>
  do before they return. What a second header on the same backing array reads in
  between is the subject of the section on the copy of a policy, where slices are
  headers on arrays in a heap.

  A nil dereference or an index out of range is a panic of the Go code; the functions
  that can panic return an option, \<open>None\<close> for the panic.

  The fields of \<^verbatim>\<open>action\<close> and \<^verbatim>\<open>condition\<close> other than the name (and the values of a
  condition) are kept as one value, \<open>a_Rest\<close> and \<open>c_Rest\<close>:
  \<^verbatim>\<open>reflect.DeepEqual\<close> on them is equality of that value. A slice that
  \<^verbatim>\<open>reflect.DeepEqual\<close> reads is an optional list, since a nil slice and an empty one
  are not deeply equal.
\<close>

type_synonym rptr = "nat option"
type_synonym aptr = "nat option"

record condition =
  c_Name :: string
  c_Values :: "string list option"
  c_Rest :: string

record action =
  a_Name :: string
  a_Rest :: string

record Rule =
  r_Name :: string
  r_FullURI :: string
  r_Ordinal :: int
  r_Actions :: "aptr list"
  r_Conditions :: "condition list"

record Policy =
  p_Name :: string
  p_Partition :: string
  p_Controls :: "string list"
  p_Requires :: "string list"
  p_Rules :: "rptr list"

typedecl Member

record Pool =
  pl_Name :: string
  pl_Partition :: string
  pl_ServiceName :: string
  pl_ServicePort :: "32 word"
  pl_NodeMemberLabel :: string
  pl_Members :: "Member list"

record metaData =
  md_rscName :: string
  md_ResourceType :: string
  md_Active :: bool

record ResourceConfig =
  rc_MetaData :: metaData
  rc_Virtual :: Virtual
  rc_Pools :: "Pool list"
  rc_Policies :: "Policy list"

record store =
  st_rules :: "nat \<Rightarrow> Rule"
  st_actions :: "nat \<Rightarrow> action"
  st_next :: nat

text \<open>\<^verbatim>\<open>&Rule{}\<close> and its like: a fresh object at the next free address.\<close>

definition zero_Rule :: Rule where
  "zero_Rule = \<lparr>r_Name = [], r_FullURI = [], r_Ordinal = 0, r_Actions = [], r_Conditions = []\<rparr>"

definition new_Rule :: "store \<Rightarrow> Rule \<Rightarrow> nat \<times> store" where
  "new_Rule s r = (st_next s, s\<lparr>st_rules := (st_rules s)(st_next s := r), st_next := Suc (st_next s)\<rparr>)"

text \<open>\<^verbatim>\<open>copy(dst, src)\<close>: the first \<open>min (len dst) (len src)\<close> elements of \<open>dst\<close> are overwritten.\<close>

definition go_copy :: "'a list \<Rightarrow> 'a list \<Rightarrow> 'a list" where
  "go_copy dst src = take (length dst) src @ drop (length src) dst"

text \<open>\<^verbatim>\<open>append(s[:i], s[i+1:]...)\<close> for \<open>i < len s\<close>.\<close>

definition delete_at :: "nat \<Rightarrow> 'a list \<Rightarrow> 'a list" where
  "delete_at i xs = take i xs @ drop (Suc i) xs"

text \<open>A loop whose body can panic.\<close>

fun fold_opt :: "('x \<Rightarrow> 's \<Rightarrow> 's option) \<Rightarrow> 'x list \<Rightarrow> 's \<Rightarrow> 's option" where
  "fold_opt f [] s = Some s"
| "fold_opt f (x # xs) s = (case f x s of None \<Rightarrow> None | Some s' \<Rightarrow> fold_opt f xs s')"

subsection \<open>\<^verbatim>\<open>FindPolicy\<close>, \<^verbatim>\<open>SetPolicy\<close>, \<^verbatim>\<open>RemovePolicy\<close>\<close>

definition GetName :: "ResourceConfig \<Rightarrow> string" where
  "GetName cfg = v_Name (rc_Virtual cfg)"

text \<open>
  \<^verbatim>\<open>FindPolicy\<close> returns \<^verbatim>\<open>&pol\<close>, the address of the loop variable: a copy of the
  first policy one of whose controls is \<open>controlType\<close>, or nil.
\<close>

definition FindPolicy :: "ResourceConfig \<Rightarrow> string \<Rightarrow> Policy option" where
  "FindPolicy rc controlType =
     find (\<lambda>pol. list_ex (\<lambda>cType. cType = controlType) (p_Controls pol)) (rc_Policies rc)"

fun set_policy_in :: "Policy list \<Rightarrow> Policy \<Rightarrow> Policy list" where
  "set_policy_in [] policy = [policy]"
| "set_policy_in (pol # pols) policy =
     (if p_Name pol = p_Name policy \<and> p_Partition pol = p_Partition policy
      then policy # pols else pol # set_policy_in pols policy)"

definition SetPolicy :: "ResourceConfig \<Rightarrow> Policy \<Rightarrow> ResourceConfig" where
  "SetPolicy rc policy =
     (let toFind = \<lparr>nr_Name = p_Name policy, nr_Partition = p_Partition policy\<rparr>;
          v = rc_Virtual rc;
          rc1 = (if list_ex (\<lambda>polName. toFind = polName) (v_Policies v) then rc
                 else rc\<lparr>rc_Virtual := v\<lparr>v_Policies := v_Policies v @ [toFind]\<rparr>\<rparr>)
      in rc1\<lparr>rc_Policies := set_policy_in (rc_Policies rc1) policy\<rparr>)"

fun remove_policy_in :: "Policy list \<Rightarrow> nameRef \<Rightarrow> Policy list" where
  "remove_policy_in [] toFind = []"
| "remove_policy_in (pol # pols) toFind =
     (if p_Name pol = nr_Name toFind \<and> p_Partition pol = nr_Partition toFind
      then pols else pol # remove_policy_in pols toFind)"

definition RemovePolicy :: "ResourceConfig \<Rightarrow> Policy \<Rightarrow> ResourceConfig" where
  "RemovePolicy rc policy =
     (let toFind = \<lparr>nr_Name = p_Name policy, nr_Partition = p_Partition policy\<rparr>;
          v = rc_Virtual rc;
          rc1 = rc\<lparr>rc_Virtual := v\<lparr>v_Policies := remove1 toFind (v_Policies v)\<rparr>\<rparr>
      in rc1\<lparr>rc_Policies := remove_policy_in (rc_Policies rc1) toFind\<rparr>)"

subsection \<open>\<^verbatim>\<open>RemoveRuleAt\<close> and \<^verbatim>\<open>RemoveRules\<close>\<close>

text \<open>
  Offsets are Go \<^verbatim>\<open>int\<close>s. \<^verbatim>\<open>RemoveRuleAt\<close> returns false for an offset at or
  beyond the length; a negative offset panics in \<^verbatim>\<open>pol.Rules[offset:]\<close>. The slot that
  the shift leaves behind gets a fresh \<^verbatim>\<open>&Rule{}\<close> before the slice is cut.
  The rule list is the receiver's view of it; \<open>RemoveRuleAt_h\<close> in the section on the
  copy of a policy is this function with the backing array, and
  \<open>RemoveRuleAt_h_receiver\<close> shows that the two agree on the receiver.
\<close>

definition RemoveRuleAt :: "store \<Rightarrow> Policy \<Rightarrow> int \<Rightarrow> (store \<times> Policy \<times> bool) option" where
  "RemoveRuleAt s pol offset =
     (if offset \<ge> int (length (p_Rules pol)) then Some (s, pol, False)
      else if offset < 0 then None
      else Some (snd (new_Rule s zero_Rule),
                 pol\<lparr>p_Rules := delete_at (nat offset) (p_Rules pol)\<rparr>, True))"

text \<open>\<^verbatim>\<open>for i, rule := range pol.Rules { rule.Ordinal = i }\<close>, from index \<open>i\<close> on.\<close>

fun fix_ordinals :: "store \<Rightarrow> rptr list \<Rightarrow> int \<Rightarrow> store option" where
  "fix_ordinals s [] i = Some s"
| "fix_ordinals s (None # rs) i = None"
| "fix_ordinals s (Some a # rs) i =
     fix_ordinals (s\<lparr>st_rules := (st_rules s)(a := (st_rules s a)\<lparr>r_Ordinal := i\<rparr>)\<rparr>) rs (i + 1)"

definition RemoveRules :: "store \<Rightarrow> Policy \<Rightarrow> int list \<Rightarrow> (store \<times> Policy \<times> bool) option" where
  "RemoveRules s pol ruleOffsets =
     (if length ruleOffsets > 0
      then (case fold_opt (\<lambda>offset (s1, pol1).
                     map_option (\<lambda>(s2, pol2, _). (s2, pol2)) (RemoveRuleAt s1 pol1 offset))
                   (rev ruleOffsets) (s, pol) of
              None \<Rightarrow> None
            | Some (s1, pol1) \<Rightarrow>
                map_option (\<lambda>s2. (s2, pol1, True)) (fix_ordinals s1 (p_Rules pol1) 0))
      else Some (s, pol, False))"

subsection \<open>Merge records\<close>

text \<open>
  \<^verbatim>\<open>mergedRulesMap\<close> is a \<^verbatim>\<open>map[string]map[string]mergedRuleEntry\<close>, keyed by the name
  of the resource configuration and then by the rule name. \<^verbatim>\<open>MergedActions\<close> is a map
  that can be nil (\<open>None\<close>); a merged entry shares its map object with the copy a
  function takes of it, so a \<^verbatim>\<open>delete\<close> through the copy is written to the entry.
\<close>

record mergedRuleEntry =
  RuleName :: string
  OtherRuleNames :: "string list"
  MergedActions :: "(string \<rightharpoonup> aptr list) option"
  OriginalRule :: rptr

type_synonym mergedRulesMap = "string \<rightharpoonup> (string \<rightharpoonup> mergedRuleEntry)"

definition zero_entry :: mergedRuleEntry where
  "zero_entry = \<lparr>RuleName = [], OtherRuleNames = [], MergedActions = None, OriginalRule = None\<rparr>"

text \<open>\<^verbatim>\<open>len(m)\<close> of a map that can be nil is zero for nil and for the empty map.\<close>

definition len0 :: "('k \<rightharpoonup> 'v) option \<Rightarrow> bool" where
  "len0 m = (case m of None \<Rightarrow> True | Some f \<Rightarrow> f = Map.empty)"

subsection \<open>\<^verbatim>\<open>MergeRules\<close>\<close>

definition HasSuffix :: "string \<Rightarrow> string \<Rightarrow> bool" where
  "HasSuffix s suffix =
     (length s \<ge> length suffix \<and> drop (length s - length suffix) s = suffix)"

fun Contains :: "string \<Rightarrow> string \<Rightarrow> bool" where
  "Contains [] substr = (substr = [])"
| "Contains (c # cs) substr = (take (length substr) (c # cs) = substr \<or> Contains cs substr)"

text \<open>
  The test \<^verbatim>\<open>strings.Contains(name, "app-root") || strings.Contains(name, "url-rewrite")\<close>
  that the direction of a merge is decided by.
\<close>

definition has_marker :: "string \<Rightarrow> bool" where
  "has_marker name = (Contains name ''app-root'' \<or> Contains name ''url-rewrite'')"

text \<open>Both names are blanked, the two objects compared with \<^verbatim>\<open>reflect.DeepEqual\<close>, the names restored.\<close>

definition condition_eq_blind :: "condition \<Rightarrow> condition \<Rightarrow> bool" where
  "condition_eq_blind c d = (c\<lparr>c_Name := []\<rparr> = d\<lparr>c_Name := []\<rparr>)"

definition action_eq_blind :: "action \<Rightarrow> action \<Rightarrow> bool" where
  "action_eq_blind a b = (a\<lparr>a_Name := []\<rparr> = b\<lparr>a_Name := []\<rparr>)"

text \<open>\<^verbatim>\<open>numMatches\<close>: the pairs \<open>(k, l)\<close> of conditions that are equal with their names blanked.\<close>

definition num_matches :: "condition list \<Rightarrow> condition list \<Rightarrow> nat" where
  "num_matches cs ds = length (filter (\<lambda>(c, d). condition_eq_blind c d) (List.product cs ds))"

text \<open>
  The loop over \<open>l\<close> for one action of the mergee: does an action of the merger equal
  it, names blanked? It reads the name of both actions in every round, so a nil pointer
  panics as soon as the merger has an action.
\<close>

fun find_equal_action :: "(nat \<Rightarrow> action) \<Rightarrow> aptr \<Rightarrow> aptr list \<Rightarrow> bool option" where
  "find_equal_action A a [] = Some False"
| "find_equal_action A a (b # bs) =
     (case (a, b) of
        (Some x, Some y) \<Rightarrow>
          (case find_equal_action A a bs of
             None \<Rightarrow> None
           | Some found \<Rightarrow> Some (action_eq_blind (A x) (A y) \<or> found))
      | _ \<Rightarrow> None)"

text \<open>
  The loop over \<open>k\<close>: every action of the mergee that the merger does not have yet is
  appended to the merger's actions, and \<^verbatim>\<open>MergedActions\<close> is made anew with that one
  action under the mergee's name.
\<close>

fun merge_unique_actions ::
  "(nat \<Rightarrow> action) \<Rightarrow> string \<Rightarrow> aptr list \<Rightarrow> aptr list \<times> (string \<rightharpoonup> aptr list) option
   \<Rightarrow> (aptr list \<times> (string \<rightharpoonup> aptr list) option) option" where
  "merge_unique_actions A mergeeName [] acc = Some acc"
| "merge_unique_actions A mergeeName (a # as) (mergerActions, ma) =
     (case find_equal_action A a mergerActions of
        None \<Rightarrow> None
      | Some found \<Rightarrow>
          if found then merge_unique_actions A mergeeName as (mergerActions, ma)
          else merge_unique_actions A mergeeName as
                 (mergerActions @ [a], Some [mergeeName \<mapsto> [] @ [a]]))"

text \<open>The state of the two nested loops: the store, the merge records and the two index lists.\<close>

type_synonym merge_state = "store \<times> mergedRulesMap \<times> nat list \<times> nat list"

text \<open>
  Rule \<open>mergee\<close> is folded into rule \<open>merger\<close> (both addresses of rule objects, with the
  pointers \<open>pe\<close> and \<open>pr\<close> they were read from): the actions are merged, and when an
  action was moved the two entries are written to the records of \<open>key\<close>.
\<close>

definition merge_into ::
  "string \<Rightarrow> nat \<Rightarrow> nat \<Rightarrow> store \<Rightarrow> mergedRulesMap \<Rightarrow> (store \<times> mergedRulesMap) option" where
  "merge_into key mergee merger s mm =
     (let mergeeName = r_Name (st_rules s mergee);
          mergerName = r_Name (st_rules s merger);
          mergerEntry0 = \<lparr>RuleName = mergerName, OtherRuleNames = [mergeeName],
                          MergedActions = None, OriginalRule = Some merger\<rparr>;
          mergeeEntry0 = \<lparr>RuleName = mergeeName, OtherRuleNames = [mergerName],
                          MergedActions = None, OriginalRule = Some mergee\<rparr>
      in case merge_unique_actions (st_actions s) mergeeName (r_Actions (st_rules s mergee))
                (r_Actions (st_rules s merger), None) of
           None \<Rightarrow> None
         | Some (acts, ma) \<Rightarrow>
             let s' = s\<lparr>st_rules := (st_rules s)(merger := (st_rules s merger)\<lparr>r_Actions := acts\<rparr>)\<rparr>;
                 mergerEntry1 = mergerEntry0\<lparr>MergedActions := ma\<rparr>
             in if \<not> len0 ma
                then (case mm key of
                        Some inner \<Rightarrow>
                          let mergerEntry =
                                (case inner mergerName of
                                   Some entry \<Rightarrow>
                                     mergerEntry1
                                       \<lparr>OtherRuleNames :=
                                          (if \<not> list_ex (\<lambda>v. v = mergeeName) (OtherRuleNames entry)
                                           then [mergeeName] @ OtherRuleNames entry
                                           else [mergeeName]),
                                        MergedActions :=
                                          (if \<not> len0 (MergedActions entry)
                                           then Some (the ma ++ the (MergedActions entry))
                                           else ma),
                                        OriginalRule := OriginalRule entry\<rparr>
                                 | None \<Rightarrow> mergerEntry1);
                              mergeeEntry =
                                (case inner mergeeName of
                                   Some entry \<Rightarrow> mergeeEntry0\<lparr>OriginalRule := OriginalRule entry\<rparr>
                                 | None \<Rightarrow> mergeeEntry0)
                          in Some (s', mm(key \<mapsto> inner(mergerName \<mapsto> mergerEntry,
                                                         mergeeName \<mapsto> mergeeEntry)))
                      | None \<Rightarrow>
                          Some (s', mm(key \<mapsto> [mergerName \<mapsto> mergerEntry1,
                                                  mergeeName \<mapsto> mergeeEntry0])))
                else Some (s', mm))"

text \<open>
  The body of the inner loop for the indices \<open>i < j\<close>. The rule at \<open>i\<close> has been read by
  the outer loop; a nil pointer at \<open>j\<close> panics.
\<close>

definition merge_pair :: "string \<Rightarrow> rptr list \<Rightarrow> nat \<Rightarrow> nat \<Rightarrow> merge_state \<Rightarrow> merge_state option" where
  "merge_pair key rules i j st =
     (case st of (s, mm, iDeleted, jDeleted) \<Rightarrow>
        (case (rules ! i, rules ! j) of
           (Some ai, Some aj) \<Rightarrow>
             let ri = st_rules s ai; rj = st_rules s aj
             in if HasSuffix (r_Name rj) ''-reset'' then Some st
                else if length (r_Conditions ri) = length (r_Conditions rj)
                        \<and> num_matches (r_Conditions ri) (r_Conditions rj) = length (r_Conditions ri)
                then (if (has_marker (r_Name ri) \<and> \<not> has_marker (r_Name rj))
                         \<or> (has_marker (r_Name ri) \<and> has_marker (r_Name rj))
                      then map_option (\<lambda>(s', mm'). (s', mm', iDeleted @ [i], jDeleted))
                             (merge_into key ai aj s mm)
                      else if \<not> has_marker (r_Name ri) \<and> has_marker (r_Name rj)
                      then map_option (\<lambda>(s', mm'). (s', mm', iDeleted, jDeleted @ [j]))
                             (merge_into key aj ai s mm)
                      else Some st)
                else Some st
         | _ \<Rightarrow> None))"

definition merge_row :: "string \<Rightarrow> rptr list \<Rightarrow> nat \<Rightarrow> merge_state \<Rightarrow> merge_state option" where
  "merge_row key rules i st =
     (case rules ! i of
        None \<Rightarrow> None
      | Some ai \<Rightarrow>
          if HasSuffix (r_Name (st_rules (fst st) ai)) ''-reset'' then Some st
          else fold_opt (merge_pair key rules i) [i + 1 ..< length rules] st)"

text \<open>
  The sorted indices without repetitions, and the loop that removes them: after every
  removal all the indices are decremented.
\<close>

definition unique_indices :: "nat list \<Rightarrow> nat list" where
  "unique_indices deleted =
     foldl (\<lambda>uniq d. if list_ex (\<lambda>u. u = d) uniq then uniq else uniq @ [d]) [] deleted"

fun delete_indices :: "'a list \<Rightarrow> nat list \<Rightarrow> 'a list" where
  "delete_indices rules [] = rules"
| "delete_indices rules (index # rest) =
     delete_indices (delete_at index rules) (map (\<lambda>x. x - 1) rest)"

definition MergeRules ::
  "ResourceConfig \<Rightarrow> store \<Rightarrow> mergedRulesMap \<Rightarrow> (ResourceConfig \<times> store \<times> mergedRulesMap) option" where
  "MergeRules rc s mm =
     (case FindPolicy rc ''forwarding'' of
        None \<Rightarrow> Some (rc, s, mm)
      | Some policy \<Rightarrow>
          let rules = p_Rules policy
          in case fold_opt (merge_row (GetName rc) rules) [0 ..< length rules] (s, mm, [], []) of
               None \<Rightarrow> None
             | Some (s', mm', iDeleted, jDeleted) \<Rightarrow>
                 let uniq = unique_indices (sort (iDeleted @ jDeleted))
                 in Some (SetPolicy rc (policy\<lparr>p_Rules := delete_indices rules uniq\<rparr>), s', mm'))"

subsection \<open>\<^verbatim>\<open>UnmergeRule\<close>\<close>

text \<open>
  \<^verbatim>\<open>for i := range policy.Rules { if policy.Rules[i].Name == name { ...; break } }\<close>: the
  position of the first rule with that name; a nil pointer before it panics.
\<close>

fun find_rule_named :: "(nat \<Rightarrow> Rule) \<Rightarrow> string \<Rightarrow> rptr list \<Rightarrow> nat option option" where
  "find_rule_named R name [] = Some None"
| "find_rule_named R name (None # rs) = None"
| "find_rule_named R name (Some a # rs) =
     (if r_Name (R a) = name then Some (Some 0)
      else map_option (map_option Suc) (find_rule_named R name rs))"

text \<open>
  The indices \<open>k\<close> of the actions of the merger that are one of the merged actions, by
  pointer equality, in the order of the two loops (over the merged actions, then over
  the actions of the rule).
\<close>

definition deleted_action_indices :: "aptr list \<Rightarrow> aptr list \<Rightarrow> int list" where
  "deleted_action_indices mergedActions actions =
     concat (map (\<lambda>m. map int (filter (\<lambda>k. m = actions ! k) [0 ..< length actions]))
               mergedActions)"

text \<open>
  The loop that deletes them: \<^verbatim>\<open>append(a[:index], a[index+1:]...)\<close> panics for an
  index that is negative or not below the length; then every index is decremented.
\<close>

fun delete_actions :: "aptr list \<Rightarrow> int list \<Rightarrow> aptr list option" where
  "delete_actions actions [] = Some actions"
| "delete_actions actions (index # rest) =
     (if index < 0 \<or> index \<ge> int (length actions) then None
      else delete_actions (delete_at (nat index) actions) (map (\<lambda>x. x - 1) rest))"

text \<open>
  The first occurrence of \<open>name\<close> is cut out of \<open>OtherRuleNames\<close> in place. The copy of the
  entry gets the shorter slice; the entry in the map keeps its length and sees the array
  after the shift, whose last element now stands twice.
\<close>

definition shifted_in_place :: "string \<Rightarrow> string list \<Rightarrow> string list" where
  "shifted_in_place name names =
     (if list_ex (\<lambda>n. n = name) names then remove1 name names @ [last names] else names)"

text \<open>The mergees of a merger are put back: each \<^verbatim>\<open>OriginalRule\<close> is appended and its entry deleted.\<close>

definition restore_mergees ::
  "string list \<Rightarrow> rptr list \<times> (string \<rightharpoonup> mergedRuleEntry) \<Rightarrow> rptr list \<times> (string \<rightharpoonup> mergedRuleEntry)"
where
  "restore_mergees names acc =
     foldl (\<lambda>(rules, inner) mergeeRuleName.
              (rules @ [OriginalRule (case inner mergeeRuleName of
                                        None \<Rightarrow> zero_entry | Some e \<Rightarrow> e)],
               inner(mergeeRuleName := None)))
       acc names"

text \<open>\<^verbatim>\<open>if len(mergedRulesMap[rsName]) == 0 { delete(mergedRulesMap, rsName) }\<close>\<close>

definition drop_empty :: "string \<Rightarrow> mergedRulesMap \<Rightarrow> mergedRulesMap" where
  "drop_empty rsName mm = (if len0 (mm rsName) then mm(rsName := None) else mm)"

definition UnmergeRule ::
  "ResourceConfig \<Rightarrow> string \<Rightarrow> store \<Rightarrow> mergedRulesMap
   \<Rightarrow> (bool \<times> ResourceConfig \<times> store \<times> mergedRulesMap) option" where
  "UnmergeRule rc ruleName s mm =
     (let rsName = GetName rc
      in case mm rsName of
           None \<Rightarrow> Some (False, rc, s, mm)
         | Some inner \<Rightarrow>
            (case inner ruleName of
               None \<Rightarrow> Some (False, rc, s, mm)
             | Some entry \<Rightarrow>
                 if MergedActions entry \<noteq> None
                 then \<comment> \<open>this rule had other rules merged into it\<close>
                   (case FindPolicy rc ''forwarding'' of
                      None \<Rightarrow> None
                    | Some policy \<Rightarrow>
                       (case find_rule_named (st_rules s) (RuleName entry) (p_Rules policy) of
                          None \<Rightarrow> None
                        | Some pos \<Rightarrow>
                            let rules1 = (case pos of None \<Rightarrow> p_Rules policy
                                          | Some i \<Rightarrow> delete_at i (p_Rules policy));
                                (rules2, inner2) = restore_mergees (OtherRuleNames entry) (rules1, inner);
                                rc1 = SetPolicy rc (policy\<lparr>p_Rules := rules2\<rparr>);
                                mm1 = mm(rsName \<mapsto> inner2(ruleName := None))
                            in case MergeRules rc1 s mm1 of
                                 None \<Rightarrow> None
                               | Some (rc2, s2, mm2) \<Rightarrow> Some (True, rc2, s2, drop_empty rsName mm2)))
                 else \<comment> \<open>this rule was merged into another rule\<close>
                   (case OtherRuleNames entry of
                      [] \<Rightarrow> None
                    | mergerRuleName # _ \<Rightarrow>
                        let stored = inner mergerRuleName;
                            mergerRuleEntry = (case stored of None \<Rightarrow> zero_entry | Some e \<Rightarrow> e);
                            mergedActions =
                              (case MergedActions mergerRuleEntry of
                                 None \<Rightarrow> []
                               | Some m \<Rightarrow> (case m ruleName of None \<Rightarrow> [] | Some as \<Rightarrow> as));
                            ma' = map_option (\<lambda>m. m(ruleName := None)) (MergedActions mergerRuleEntry);
                            inner1 = (case stored of
                                        None \<Rightarrow> inner
                                      | Some e \<Rightarrow>
                                          inner(mergerRuleName \<mapsto>
                                            e\<lparr>OtherRuleNames := shifted_in_place ruleName (OtherRuleNames e),
                                              MergedActions := ma'\<rparr>));
                            inner2 = (if len0 ma' then inner1(mergerRuleName := None) else inner1);
                            inner3 = inner2(ruleName := None);
                            mm1 = mm(rsName \<mapsto> inner3)
                        in case FindPolicy rc ''forwarding'' of
                             None \<Rightarrow> None
                           | Some policy \<Rightarrow>
                              (case find_rule_named (st_rules s) mergerRuleName (p_Rules policy) of
                                 None \<Rightarrow> None
                               | Some None \<Rightarrow>
                                   Some (True,
                                     (if length (p_Rules policy) = 0 then RemovePolicy rc policy
                                      else SetPolicy rc policy),
                                     s, drop_empty rsName mm1)
                               | Some (Some i) \<Rightarrow>
                                   let a = the (p_Rules policy ! i);
                                       actions = r_Actions (st_rules s a)
                                   in case delete_actions actions
                                             (deleted_action_indices mergedActions actions) of
                                        None \<Rightarrow> None
                                      | Some actions' \<Rightarrow>
                                          let s1 = s\<lparr>st_rules := (st_rules s)
                                                      (a := (st_rules s a)\<lparr>r_Actions := actions'\<rparr>)\<rparr>;
                                              policy1 = (if length actions' = 0
                                                         then policy\<lparr>p_Rules := delete_at i (p_Rules policy)\<rparr>
                                                         else policy)
                                          in Some (True,
                                               (if length (p_Rules policy1) = 0 then RemovePolicy rc policy1
                                                else SetPolicy rc policy1),
                                               s1, drop_empty rsName mm1)))))"

subsection \<open>\<^verbatim>\<open>copyConfig\<close> and \<^verbatim>\<open>updateOldConfig\<close>\<close>

text \<open>
  The first loop over the rules of one policy: for every rule of the source a fresh
  \<^verbatim>\<open>&Rule{}\<close> with fresh slices of the source's lengths (nil action pointers, fresh
  conditions with fresh value slices). Reading a nil rule of the source panics.
\<close>

definition fresh_like :: "Rule \<Rightarrow> Rule" where
  "fresh_like src =
     zero_Rule\<lparr>r_Actions := replicate (length (r_Actions src)) None,
               r_Conditions :=
                 map (\<lambda>c. \<lparr>c_Name = [],
                           c_Values = Some (replicate (length (case c_Values c of
                                                None \<Rightarrow> [] | Some vs \<Rightarrow> vs)) []),
                           c_Rest = []\<rparr>)
                     (r_Conditions src)\<rparr>"

fun fresh_rules :: "store \<Rightarrow> rptr list \<Rightarrow> (rptr list \<times> store) option" where
  "fresh_rules s [] = Some ([], s)"
| "fresh_rules s (None # rs) = None"
| "fresh_rules s (Some a # rs) =
     (case fresh_rules (snd (new_Rule s (fresh_like (st_rules s a)))) rs of
        None \<Rightarrow> None
      | Some (ps, s2) \<Rightarrow> Some (Some (fst (new_Rule s (fresh_like (st_rules s a)))) # ps, s2))"

text \<open>
  The second loop, after \<^verbatim>\<open>copy(rc.Policies[i].Rules, cfg.Policies[i].Rules)\<close>: the
  actions, the conditions and their values are copied from the rule of the source into
  the rule that the copied policy now points to.
\<close>

definition copy_rule_fields :: "store \<Rightarrow> nat \<Rightarrow> nat \<Rightarrow> store" where
  "copy_rule_fields s dst src =
     (let s1 = s\<lparr>st_rules := (st_rules s)
                  (dst := (st_rules s dst)
                     \<lparr>r_Actions := go_copy (r_Actions (st_rules s dst)) (r_Actions (st_rules s src))\<rparr>)\<rparr>;
          s2 = s1\<lparr>st_rules := (st_rules s1)
                  (dst := (st_rules s1 dst)
                     \<lparr>r_Conditions :=
                        go_copy (r_Conditions (st_rules s1 dst)) (r_Conditions (st_rules s1 src))\<rparr>)\<rparr>
      in s2\<lparr>st_rules := (st_rules s2)
              (dst := (st_rules s2 dst)
                 \<lparr>r_Conditions :=
                    map (\<lambda>(d, c). d\<lparr>c_Values :=
                                     (case c_Values d of
                                        None \<Rightarrow> None
                                      | Some dv \<Rightarrow>
                                          Some (go_copy dv (case c_Values c of
                                                             None \<Rightarrow> [] | Some cv \<Rightarrow> cv)))\<rparr>)
                        (zip (r_Conditions (st_rules s2 dst)) (r_Conditions (st_rules s2 src)))\<rparr>)\<rparr>)"

fun copy_rules_fields :: "store \<Rightarrow> rptr list \<Rightarrow> rptr list \<Rightarrow> store option" where
  "copy_rules_fields s [] srcs = Some s"
| "copy_rules_fields s (d # ds) [] = None"
| "copy_rules_fields s (d # ds) (c # cs) =
     (case (d, c) of
        (Some dst, Some src) \<Rightarrow> copy_rules_fields (copy_rule_fields s dst src) ds cs
      | _ \<Rightarrow> None)"

text \<open>The body of \<^verbatim>\<open>for i := range rc.Policies\<close> for one policy of the source.\<close>

definition copy_policy :: "store \<Rightarrow> Policy \<Rightarrow> (Policy \<times> store) option" where
  "copy_policy s cfgpol =
     (let pol0 = cfgpol\<lparr>p_Controls := go_copy (replicate (length (p_Controls cfgpol)) [])
                                          (p_Controls cfgpol),
                        p_Requires := go_copy (replicate (length (p_Requires cfgpol)) [])
                                          (p_Requires cfgpol)\<rparr>
      in case fresh_rules s (p_Rules cfgpol) of
           None \<Rightarrow> None
         | Some (fresh, s1) \<Rightarrow>
             let pol1 = pol0\<lparr>p_Rules := go_copy fresh (p_Rules cfgpol)\<rparr>
             in map_option (\<lambda>s2. (pol1, s2))
                  (copy_rules_fields s1 (p_Rules pol1) (p_Rules cfgpol)))"

fun copy_policies :: "store \<Rightarrow> Policy list \<Rightarrow> (Policy list \<times> store) option" where
  "copy_policies s [] = Some ([], s)"
| "copy_policies s (pol # pols) =
     (case copy_policy s pol of
        None \<Rightarrow> None
      | Some (pol', s1) \<Rightarrow>
          (case copy_policies s1 pols of
             None \<Rightarrow> None
           | Some (pols', s2) \<Rightarrow> Some (pol' # pols', s2)))"

text \<open>
  \<^verbatim>\<open>rc.copyConfig(cfg)\<close>. The meta data, the virtual server (with a fresh slice of
  policy references) and the pools (with fresh member slices) are copied by value.
  The struct copy \<^verbatim>\<open>rc.Virtual = cfg.Virtual\<close> leaves the profiles, the iRules and the
  virtual address of the copy on the arrays and the object of the source; they are
  values here.
\<close>

definition copyConfig :: "store \<Rightarrow> ResourceConfig \<Rightarrow> ResourceConfig \<Rightarrow> (ResourceConfig \<times> store) option" where
  "copyConfig s rc cfg =
     (let rc1 = rc\<lparr>rc_MetaData := rc_MetaData cfg,
                   rc_Virtual := (rc_Virtual cfg)
                      \<lparr>v_Policies := go_copy (replicate (length (v_Policies (rc_Virtual cfg)))
                                                \<lparr>nr_Name = [], nr_Partition = []\<rparr>)
                                              (v_Policies (rc_Virtual cfg))\<rparr>,
                   rc_Pools := map (\<lambda>p. p\<lparr>pl_Members := go_copy (pl_Members p) (pl_Members p)\<rparr>)
                                   (rc_Pools cfg)\<rparr>
      in map_option (\<lambda>(pols, s1). (rc1\<lparr>rc_Policies := pols\<rparr>, s1))
           (copy_policies s (rc_Policies cfg)))"

subsection \<open>The store of resource configurations\<close>

text \<open>
  A Go map that is iterated is an association list in the order of the iteration, which
  Go leaves open: \<^verbatim>\<open>rsMap\<close>, \<^verbatim>\<open>oldRsMap\<close> and a set of dependencies. \<^verbatim>\<open>objDeps\<close> is
  only read and written by key.
\<close>

record ObjectDependency =
  od_Kind :: string
  od_Namespace :: string
  od_Name :: string
  od_Service :: string

type_synonym ObjectDependencies = "(ObjectDependency \<times> int) list"

definition RuleDep :: string where
  "RuleDep = ''Rule''"

record Resources =
  rsMap :: "(string \<times> ResourceConfig) list"
  objDeps :: "ObjectDependency \<rightharpoonup> ObjectDependencies"
  oldRsMap :: "(string \<times> ResourceConfig) list"

definition zero_ResourceConfig :: ResourceConfig where
  "zero_ResourceConfig =
     \<lparr>rc_MetaData = \<lparr>md_rscName = [], md_ResourceType = [], md_Active = False\<rparr>,
      rc_Virtual = \<lparr>v_Name = [], v_Partition = [], v_Destination = [], v_Enabled = False,
                    v_VirtualAddress = None, v_Profiles = [], v_Policies = [], v_IRules = []\<rparr>,
      rc_Pools = [], rc_Policies = []\<rparr>"

fun copy_configs ::
  "store \<Rightarrow> (string \<times> ResourceConfig) list \<Rightarrow> ((string \<times> ResourceConfig) list \<times> store) option" where
  "copy_configs s [] = Some ([], s)"
| "copy_configs s ((k, v) # kvs) =
     (case copyConfig s zero_ResourceConfig v of
        None \<Rightarrow> None
      | Some (rc, s1) \<Rightarrow>
          (case copy_configs s1 kvs of
             None \<Rightarrow> None
           | Some (old, s2) \<Rightarrow> Some ((k, rc) # old, s2)))"

definition updateOldConfig :: "store \<Rightarrow> Resources \<Rightarrow> (Resources \<times> store) option" where
  "updateOldConfig s rs =
     map_option (\<lambda>(old, s1). (rs\<lparr>oldRsMap := old\<rparr>, s1)) (copy_configs s (rsMap rs))"

definition GetByName :: "Resources \<Rightarrow> string \<Rightarrow> ResourceConfig option" where
  "GetByName rs name = map_of (rsMap rs) name"

subsection \<open>\<^verbatim>\<open>UpdateDependencies\<close>\<close>

definition removed_deps :: "ObjectDependencies \<Rightarrow> ObjectDependencies \<Rightarrow> ObjectDependency list" where
  "removed_deps oldDeps newDeps =
     foldl (\<lambda>removed oldDep.
              if map_of newDeps oldDep = None
              then (if od_Kind oldDep = RuleDep then [oldDep] @ removed else removed @ [oldDep])
              else removed)
       [] (map fst oldDeps)"

definition added_deps :: "ObjectDependencies \<Rightarrow> ObjectDependencies \<Rightarrow> ObjectDependency list" where
  "added_deps oldDeps newDeps =
     foldl (\<lambda>added newDep. if map_of oldDeps newDep = None then added @ [newDep] else added)
       [] (map fst newDeps)"

text \<open>The function returns \<open>(added, removed)\<close> and stores \<open>newDeps\<close> under \<open>newKey\<close>.\<close>

definition UpdateDependencies ::
  "Resources \<Rightarrow> ObjectDependency \<Rightarrow> ObjectDependencies \<Rightarrow> (ObjectDependency \<Rightarrow> bool)
   \<Rightarrow> Resources \<times> ObjectDependency list \<times> ObjectDependency list" where
  "UpdateDependencies rs newKey newDeps lookupFunc =
     (let (added, removed) =
            (case objDeps rs newKey of
               Some oldDeps \<Rightarrow> (added_deps oldDeps newDeps, removed_deps oldDeps newDeps)
             | None \<Rightarrow> (foldl (\<lambda>added newDep. added @ [newDep]) [] (map fst newDeps), []))
      in (rs\<lparr>objDeps := (objDeps rs)(newKey \<mapsto> newDeps)\<rparr>, added, removed))"

text \<open>Example value: a dependency of a kind and name in the namespace \<open>ns\<close>.\<close>

definition dep_of :: "string \<Rightarrow> string \<Rightarrow> ObjectDependency" where
  "dep_of kind name = \<lparr>od_Kind = kind, od_Namespace = ''ns'', od_Name = name, od_Service = []\<rparr>"

subsection \<open>Example values\<close>

text \<open>
  A configuration \<open>vs1\<close> with one forwarding policy and two rules on the same host
  condition: an app-root rule (address 0, ordinal 0) with a redirect action and a
  forwarding rule (address 1, ordinal 1) with a pool action.
\<close>

definition ex_actions :: "nat \<Rightarrow> action" where
  "ex_actions = (\<lambda>_. \<lparr>a_Name = [], a_Rest = []\<rparr>)
     (0 := \<lparr>a_Name = ''0'', a_Rest = ''forward:pool1''\<rparr>,
      1 := \<lparr>a_Name = ''0'', a_Rest = ''redirect:/app''\<rparr>)"

definition ex_cond :: "string \<Rightarrow> condition" where
  "ex_cond name = \<lparr>c_Name = name, c_Values = Some [''foo.com''], c_Rest = ''host''\<rparr>"

definition ex_app :: Rule where
  "ex_app = \<lparr>r_Name = ''app-root-redirect-rule-foo'', r_FullURI = ''foo.com/'', r_Ordinal = 0,
     r_Actions = [Some 1], r_Conditions = [ex_cond ''0'']\<rparr>"

definition ex_fwd :: Rule where
  "ex_fwd = \<lparr>r_Name = ''vs_foo_svc1'', r_FullURI = ''foo.com/'', r_Ordinal = 1,
     r_Actions = [Some 0], r_Conditions = [ex_cond ''1'']\<rparr>"

definition ex_store :: store where
  "ex_store = \<lparr>st_rules = (\<lambda>_. zero_Rule)(0 := ex_app, 1 := ex_fwd),
               st_actions = ex_actions, st_next = 2\<rparr>"

definition ex_policy :: "rptr list \<Rightarrow> Policy" where
  "ex_policy rules = \<lparr>p_Name = ''vs1_policy'', p_Partition = ''test'',
     p_Controls = [''forwarding''], p_Requires = [''http''], p_Rules = rules\<rparr>"

definition ex_rc :: "rptr list \<Rightarrow> ResourceConfig" where
  "ex_rc rules =
     \<lparr>rc_MetaData = \<lparr>md_rscName = ''vs'', md_ResourceType = ''VirtualServer'', md_Active = True\<rparr>,
      rc_Virtual = \<lparr>v_Name = ''vs1'', v_Partition = ''test'', v_Destination = [], v_Enabled = True,
        v_VirtualAddress = None, v_Profiles = [],
        v_Policies = [\<lparr>nr_Name = ''vs1_policy'', nr_Partition = ''test''\<rparr>], v_IRules = []\<rparr>,
      rc_Pools = [], rc_Policies = [ex_policy rules]\<rparr>"

definition ex_merged_store :: store where
  "ex_merged_store =
     ex_store\<lparr>st_rules := (st_rules ex_store)(1 := ex_fwd\<lparr>r_Actions := [Some 0, Some 1]\<rparr>)\<rparr>"

definition ex_merged_map :: mergedRulesMap where
  "ex_merged_map = [''vs1'' \<mapsto>
      [''vs_foo_svc1'' \<mapsto>
         \<lparr>RuleName = ''vs_foo_svc1'', OtherRuleNames = [''app-root-redirect-rule-foo''],
          MergedActions = Some [''app-root-redirect-rule-foo'' \<mapsto> [Some 1]],
          OriginalRule = Some 1\<rparr>,
       ''app-root-redirect-rule-foo'' \<mapsto>
         \<lparr>RuleName = ''app-root-redirect-rule-foo'', OtherRuleNames = [''vs_foo_svc1''],
          MergedActions = None, OriginalRule = Some 0\<rparr>]]"

text \<open>The ordinals of the rules of a policy, in the order of its rule list.\<close>

definition rule_ordinals :: "store \<Rightarrow> rptr list \<Rightarrow> int option list" where
  "rule_ordinals s rules = map (map_option (\<lambda>a. r_Ordinal (st_rules s a))) rules"

definition ordinals_contiguous :: "store \<Rightarrow> rptr list \<Rightarrow> bool" where
  "ordinals_contiguous s rules = (rule_ordinals s rules = map (\<lambda>i. Some (int i)) [0 ..< length rules])"

definition ex_removed_store :: store where
  "ex_removed_store =
     ex_store\<lparr>st_rules := (st_rules ex_store)(2 := zero_Rule, 1 := ex_fwd\<lparr>r_Ordinal := 0\<rparr>),
               st_next := 3\<rparr>"

definition ex_twice_store :: store where
  "ex_twice_store =
     ex_store\<lparr>st_rules := (st_rules ex_store)(2 := zero_Rule, 0 := ex_app\<lparr>r_Ordinal := 1\<rparr>),
               st_next := 3\<rparr>"

text \<open>What a reader of a policy sees: the rule objects that its rule list points to.\<close>

definition policy_view :: "store \<Rightarrow> Policy \<Rightarrow> Rule option list" where
  "policy_view s pol = map (map_option (st_rules s)) (p_Rules pol)"

text \<open>
  The example after \<open>updateOldConfig\<close>: the two fresh rule objects at the addresses 2
  and 3, and the store of configurations that holds \<open>vs1\<close>.
\<close>

definition ex_fresh :: Rule where
  "ex_fresh = zero_Rule\<lparr>r_Actions := [None],
     r_Conditions := [\<lparr>c_Name = [], c_Values = Some [[]], c_Rest = []\<rparr>]\<rparr>"

definition ex_copied_store :: store where
  "ex_copied_store =
     ex_store\<lparr>st_rules := (st_rules ex_store)(2 := ex_fresh, 3 := ex_fresh), st_next := 4\<rparr>"

definition ex_copied_merged_store :: store where
  "ex_copied_merged_store =
     ex_copied_store\<lparr>st_rules := (st_rules ex_copied_store)
                       (1 := ex_fwd\<lparr>r_Actions := [Some 0, Some 1]\<rparr>)\<rparr>"

definition ex_rs :: Resources where
  "ex_rs = \<lparr>rsMap = [(''vs1'', ex_rc [Some 0, Some 1])], objDeps = Map.empty, oldRsMap = []\<rparr>"

section \<open>Internal data groups\<close>

record InternalDataGroupRecord =
  idr_Name :: string
  idr_Data :: string

record InternalDataGroup =
  idg_Name :: string
  idg_Partition :: string
  idg_Records :: "InternalDataGroupRecord list"

text \<open>
  A \<^verbatim>\<open>DataGroupNamespaceMap\<close> maps a namespace to a \<^verbatim>\<open>*InternalDataGroup\<close>. The data
  groups live in a store of their own, a pointer is an address or nil, and the map is an
  association list in the order of its iteration.
\<close>

record dg_store =
  dg_objs :: "nat \<Rightarrow> InternalDataGroup"
  dg_next :: nat

type_synonym DataGroupNamespaceMap = "(string \<times> nat option) list"

subsection \<open>\<^verbatim>\<open>AddOrUpdateRecord\<close>\<close>

definition AddOrUpdateRecord :: "InternalDataGroup \<Rightarrow> string \<Rightarrow> string \<Rightarrow> InternalDataGroup \<times> bool" where
  "AddOrUpdateRecord idg name data =
     (let nameKeyFunc = (\<lambda>i. idr_Name (idg_Records idg ! i) \<ge> name);
          i = sort_Search (length (idg_Records idg)) nameKeyFunc
      in if i < length (idg_Records idg) \<and> idr_Name (idg_Records idg ! i) = name
         then (if idr_Data (idg_Records idg ! i) \<noteq> data
               then (idg\<lparr>idg_Records :=
                          (idg_Records idg)[i := (idg_Records idg ! i)\<lparr>idr_Data := data\<rparr>]\<rparr>, True)
               else (idg, False))
         else (idg\<lparr>idg_Records := take i (idg_Records idg)
                        @ [\<lparr>idr_Name = name, idr_Data = data\<rparr>] @ drop i (idg_Records idg)\<rparr>,
               True))"

subsection \<open>The conflict functions\<close>

definition PassthroughHostsDgName :: string where
  "PassthroughHostsDgName = ''ssl_passthrough_servername_dg''"

definition ReencryptHostsDgName :: string where
  "ReencryptHostsDgName = ''ssl_reencrypt_servername_dg''"

definition EdgeHostsDgName :: string where
  "EdgeHostsDgName = ''ssl_edge_servername_dg''"

definition ReencryptServerSslDgName :: string where
  "ReencryptServerSslDgName = ''ssl_reencrypt_serverssl_dg''"

definition EdgeServerSslDgName :: string where
  "EdgeServerSslDgName = ''ssl_edge_serverssl_dg''"

definition AbDeploymentDgName :: string where
  "AbDeploymentDgName = ''ab_deployment_dg''"

definition HttpsRedirectDgName :: string where
  "HttpsRedirectDgName = ''https_redirect_dg''"

text \<open>\<^verbatim>\<open>buf.WriteString\<close> of the paths with a bar between them.\<close>

fun join_bar :: "string list \<Rightarrow> string" where
  "join_bar [] = []"
| "join_bar [p] = p"
| "join_bar (p # q # ps) = p @ ''|'' @ join_bar (q # ps)"

text \<open>
  The tokens of both values (\<^verbatim>\<open>strings.Split(v, "|")\<close>) are the keys of a map; the keys
  are sorted with \<^verbatim>\<open>sort.Strings\<close> and joined.
\<close>

definition flattenConflictConcat :: "string \<Rightarrow> string \<Rightarrow> string \<Rightarrow> string" where
  "flattenConflictConcat key oldVal newVal =
     join_bar (sort (remdups (split_on CHR ''|'' oldVal @ split_on CHR ''|'' newVal)))"

text \<open>The message that \<^verbatim>\<open>flattenConflictWarn\<close> prints is not modelled.\<close>

definition flattenConflictWarn :: "string \<Rightarrow> string \<Rightarrow> string \<Rightarrow> string" where
  "flattenConflictWarn key oldVal newVal = oldVal"

definition groupFlattenFuncMap :: "string \<rightharpoonup> (string \<Rightarrow> string \<Rightarrow> string \<Rightarrow> string)" where
  "groupFlattenFuncMap =
     [PassthroughHostsDgName \<mapsto> flattenConflictWarn,
      ReencryptHostsDgName \<mapsto> flattenConflictWarn,
      EdgeHostsDgName \<mapsto> flattenConflictWarn,
      ReencryptServerSslDgName \<mapsto> flattenConflictWarn,
      EdgeServerSslDgName \<mapsto> flattenConflictWarn,
      HttpsRedirectDgName \<mapsto> flattenConflictConcat,
      AbDeploymentDgName \<mapsto> flattenConflictConcat]"

subsection \<open>\<^verbatim>\<open>FlattenNamespaces\<close>\<close>

text \<open>
  \<^verbatim>\<open>flatMap\<close> is an association list with one pair per record name. The body of the
  loop over the records of one data group:
\<close>

definition flatten_record ::
  "string \<Rightarrow> (string \<times> string) list \<Rightarrow> InternalDataGroupRecord \<Rightarrow> (string \<times> string) list" where
  "flatten_record dgName flatMap rec =
     (case map_of flatMap (idr_Name rec) of
        Some item \<Rightarrow>
          if item \<noteq> idr_Data rec
          then (let conflictFunc = (case groupFlattenFuncMap dgName of
                                      Some f \<Rightarrow> f | None \<Rightarrow> flattenConflictWarn)
                in AList.update (idr_Name rec) (conflictFunc (idr_Name rec) item (idr_Data rec)) flatMap)
          else flatMap
      | None \<Rightarrow> AList.update (idr_Name rec) (idr_Data rec) flatMap)"

text \<open>The body of the loop over the data groups: partition, name and \<^verbatim>\<open>flatMap\<close>.\<close>

definition flatten_group ::
  "string \<times> string \<times> (string \<times> string) list \<Rightarrow> InternalDataGroup
   \<Rightarrow> string \<times> string \<times> (string \<times> string) list" where
  "flatten_group acc dg =
     (case acc of (part, name, flatMap) \<Rightarrow>
        ((if part = [] then idg_Partition dg else part),
         (if name = [] then idg_Name dg else name),
         foldl (flatten_record (idg_Name dg)) flatMap (idg_Records dg)))"

text \<open>
  \<^verbatim>\<open>for name, data := range flatMap { newDg.AddOrUpdateRecord(name, data) }\<close>. The order
  of this iteration is open; the model takes the order of the list.
\<close>

definition build_records :: "(string \<times> string) list \<Rightarrow> InternalDataGroup \<Rightarrow> InternalDataGroup" where
  "build_records flatMap newDg =
     foldl (\<lambda>dg (name, data). fst (AddOrUpdateRecord dg name data)) newDg flatMap"

text \<open>
  The result is a pointer: nil, the pointer of the only entry, or the address of the new
  data group. A nil pointer among two or more entries panics (\<open>None\<close>).
\<close>

definition deref_all :: "DataGroupNamespaceMap \<Rightarrow> dg_store \<Rightarrow> InternalDataGroup list option" where
  "deref_all dgnm st =
     (if list_all (\<lambda>(ns, p). p \<noteq> None) dgnm
      then Some (map (\<lambda>(ns, p). dg_objs st (the p)) dgnm) else None)"

definition FlattenNamespaces :: "dg_store \<Rightarrow> DataGroupNamespaceMap \<Rightarrow> (nat option \<times> dg_store) option" where
  "FlattenNamespaces st dgnm =
     (if length dgnm = 0 then Some (None, st)
      else if length dgnm = 1 then Some (snd (hd dgnm), st)
      else (case deref_all dgnm st of
              None \<Rightarrow> None
            | Some dgs \<Rightarrow>
                (case foldl flatten_group ([], [], []) dgs of
                   (part, name, flatMap) \<Rightarrow>
                     let newDg = build_records flatMap
                                   \<lparr>idg_Name = name, idg_Partition = part, idg_Records = []\<rparr>
                     in Some (Some (dg_next st),
                              st\<lparr>dg_objs := (dg_objs st)(dg_next st := newDg),
                                 dg_next := Suc (dg_next st)\<rparr>))))"

text \<open>
  The flattening in the words of the specification. The data that the namespaces supply
  for one record name, in the order of the iteration, each with the name of its data
  group; the first is kept, and every later one that differs from the current value is
  resolved by the conflict function of its data group, which is warn-and-keep-first for
  a name that the table does not have.
\<close>

definition conflict_for :: "string \<Rightarrow> string \<Rightarrow> string \<Rightarrow> string \<Rightarrow> string" where
  "conflict_for dgName =
     (if dgName \<in> {PassthroughHostsDgName, ReencryptHostsDgName, EdgeHostsDgName,
                     ReencryptServerSslDgName, EdgeServerSslDgName}
      then (\<lambda>key oldVal newVal. oldVal)
      else if dgName \<in> {HttpsRedirectDgName, AbDeploymentDgName}
      then flattenConflictConcat
      else (\<lambda>key oldVal newVal. oldVal))"

definition supplied :: "InternalDataGroup list \<Rightarrow> string \<Rightarrow> (string \<times> string) list" where
  "supplied dgs recName =
     concat (map (\<lambda>dg. map (\<lambda>r. (idg_Name dg, idr_Data r))
                           (filter (\<lambda>r. idr_Name r = recName) (idg_Records dg))) dgs)"

definition resolved :: "string \<Rightarrow> (string \<times> string) list \<Rightarrow> string option" where
  "resolved recName supply =
     (case supply of
        [] \<Rightarrow> None
      | (_, first) # rest \<Rightarrow>
          Some (foldl (\<lambda>cur (dgName, data).
                         if cur \<noteq> data then conflict_for dgName recName cur data else cur)
                  first rest))"

text \<open>Example values: two namespaces that supply different data for the record \<open>x\<close>.\<close>

definition ex_dg :: "string \<Rightarrow> string \<Rightarrow> InternalDataGroup" where
  "ex_dg name data =
     \<lparr>idg_Name = name, idg_Partition = ''test'',
      idg_Records = [\<lparr>idr_Name = ''x'', idr_Data = data\<rparr>]\<rparr>"

definition ex_dg_store :: "string \<Rightarrow> dg_store" where
  "ex_dg_store name =
     \<lparr>dg_objs = (\<lambda>_. \<lparr>idg_Name = [], idg_Partition = [], idg_Records = []\<rparr>)
                  (0 := ex_dg name ''b/c'', 1 := ex_dg name ''a''),
      dg_next = 2\<rparr>"

text \<open>The records as pairs of name and data.\<close>

definition rec_pairs :: "InternalDataGroupRecord list \<Rightarrow> (string \<times> string) list" where
  "rec_pairs rs = map (\<lambda>r. (idr_Name r, idr_Data r)) rs"

text \<open>The value of one record name after a record of a data group named \<open>g\<close> has been read.\<close>

definition merged_value :: "string \<Rightarrow> string option \<Rightarrow> string \<times> InternalDataGroupRecord \<Rightarrow> string option" where
  "merged_value n cur gr =
     (case gr of (g, r) \<Rightarrow>
        if idr_Name r = n
        then Some (case cur of
                     None \<Rightarrow> idr_Data r
                   | Some c \<Rightarrow> if c \<noteq> idr_Data r then conflict_for g n c (idr_Data r) else c)
        else cur)"

text \<open>The records of all the data groups, each with the name of its data group.\<close>

definition all_records :: "InternalDataGroup list \<Rightarrow> (string \<times> InternalDataGroupRecord) list" where
  "all_records dgs = concat (map (\<lambda>dg. map (Pair (idg_Name dg)) (idg_Records dg)) dgs)"

section \<open>Rules that merge\<close>









section \<open>The copy of a policy, with slice headers\<close>

text \<open>
  What the configuration reads after a write through the copy that \<^verbatim>\<open>FindPolicy\<close>
  returns depends on the backing array that the two \<^verbatim>\<open>Rules\<close> slices share. In this
  section a slice is a header: a backing array, an offset into it and a length. The
  capacity is read by \<^verbatim>\<open>append\<close> and by reslicing beyond the length only; the functions
  of this section do neither, and the header has no capacity.
\<close>

record slice =
  sl_array :: nat
  sl_off :: nat
  sl_len :: nat

text \<open>
  The \<^verbatim>\<open>Policy\<close> struct with its \<^verbatim>\<open>Rules\<close> as a header, and the configuration that holds
  such policies. \<^verbatim>\<open>Controls\<close> and \<^verbatim>\<open>Requires\<close> stay value lists: no function writes
  their elements in place.
\<close>

record Policy_hdr =
  ph_Name :: string
  ph_Partition :: string
  ph_Controls :: "string list"
  ph_Requires :: "string list"
  ph_Rules :: slice

record ResourceConfig_hdr =
  rh_MetaData :: metaData
  rh_Virtual :: Virtual
  rh_Pools :: "Pool list"
  rh_Policies :: "Policy_hdr list"

text \<open>
  The heap: the store of rule objects, the backing arrays of the rule slices, and the
  \<^verbatim>\<open>Policy\<close> variables whose address is taken, with the next free address.
\<close>

record heap =
  hp_store :: store
  hp_arrays :: "nat \<Rightarrow> rptr list"
  hp_vars :: "nat \<Rightarrow> Policy_hdr"
  hp_next_var :: nat

text \<open>
  The elements that a header reads; a header that lies inside its array; and
  \<^verbatim>\<open>copy(s[k:], ys)\<close> for \<open>k + len ys \<le> len s\<close>, which writes \<open>ys\<close> to the cells \<open>k\<close>,
  \<open>k + 1\<close>, ... of the slice, that is, into the array.
\<close>

definition slice_elems :: "heap \<Rightarrow> slice \<Rightarrow> rptr list" where
  "slice_elems h sl = take (sl_len sl) (drop (sl_off sl) (hp_arrays h (sl_array sl)))"

definition slice_ok :: "heap \<Rightarrow> slice \<Rightarrow> bool" where
  "slice_ok h sl = (sl_off sl + sl_len sl \<le> length (hp_arrays h (sl_array sl)))"

definition copy_into :: "heap \<Rightarrow> slice \<Rightarrow> nat \<Rightarrow> rptr list \<Rightarrow> heap" where
  "copy_into h sl k ys =
     h\<lparr>hp_arrays := (hp_arrays h)
          (sl_array sl := take (sl_off sl + k) (hp_arrays h (sl_array sl)) @ ys
                          @ drop (sl_off sl + k + length ys) (hp_arrays h (sl_array sl)))\<rparr>"

text \<open>What a reader of a policy sees: the rule objects that its rule list points to.\<close>

definition rules_seen :: "heap \<Rightarrow> Policy_hdr \<Rightarrow> Rule option list" where
  "rules_seen h pol = map (map_option (st_rules (hp_store h))) (slice_elems h (ph_Rules pol))"

text \<open>
  \<^verbatim>\<open>FindPolicy\<close> on the heap: \<^verbatim>\<open>return &pol\<close> is the address of the loop variable, a
  fresh variable that holds a copy of the policy, header included.
\<close>

definition FindPolicy_h :: "heap \<Rightarrow> ResourceConfig_hdr \<Rightarrow> string \<Rightarrow> nat option \<times> heap" where
  "FindPolicy_h h rc controlType =
     (case find (\<lambda>pol. list_ex (\<lambda>cType. cType = controlType) (ph_Controls pol)) (rh_Policies rc) of
        None \<Rightarrow> (None, h)
      | Some pol \<Rightarrow>
          (Some (hp_next_var h),
           h\<lparr>hp_vars := (hp_vars h)(hp_next_var h := pol), hp_next_var := Suc (hp_next_var h)\<rparr>))"

text \<open>\<^verbatim>\<open>SetPolicy\<close> takes the policy by value and stores it, header included.\<close>

fun set_policy_in_h :: "Policy_hdr list \<Rightarrow> Policy_hdr \<Rightarrow> Policy_hdr list" where
  "set_policy_in_h [] policy = [policy]"
| "set_policy_in_h (pol # pols) policy =
     (if ph_Name pol = ph_Name policy \<and> ph_Partition pol = ph_Partition policy
      then policy # pols else pol # set_policy_in_h pols policy)"

definition SetPolicy_h :: "ResourceConfig_hdr \<Rightarrow> Policy_hdr \<Rightarrow> ResourceConfig_hdr" where
  "SetPolicy_h rc policy =
     (let toFind = \<lparr>nr_Name = ph_Name policy, nr_Partition = ph_Partition policy\<rparr>;
          v = rh_Virtual rc;
          rc1 = (if list_ex (\<lambda>polName. toFind = polName) (v_Policies v) then rc
                 else rc\<lparr>rh_Virtual := v\<lparr>v_Policies := v_Policies v @ [toFind]\<rparr>\<rparr>)
      in rc1\<lparr>rh_Policies := set_policy_in_h (rh_Policies rc1) policy\<rparr>)"

text \<open>
  \<^verbatim>\<open>RemoveRuleAt\<close> on the heap, for the receiver at the address \<open>p\<close>:
  \<^verbatim>\<open>copy(pol.Rules[offset:], pol.Rules[offset+1:])\<close> moves the elements behind the
  offset one cell down (the source is read before the cells are written),
  \<^verbatim>\<open>pol.Rules[len(pol.Rules)-1] = &Rule{}\<close> writes a fresh rule to the last cell, and
  only \<^verbatim>\<open>pol.Rules = pol.Rules[:len(pol.Rules)-1]\<close> is an assignment to the receiver.
\<close>

definition RemoveRuleAt_h :: "heap \<Rightarrow> nat \<Rightarrow> int \<Rightarrow> (heap \<times> bool) option" where
  "RemoveRuleAt_h h p offset =
     (let pol = hp_vars h p; sl = ph_Rules pol
      in if offset \<ge> int (sl_len sl) then Some (h, False)
         else if offset < 0 then None
         else let h1 = copy_into h sl (nat offset) (drop (Suc (nat offset)) (slice_elems h sl));
                  fresh = new_Rule (hp_store h1) zero_Rule;
                  h2 = copy_into (h1\<lparr>hp_store := snd fresh\<rparr>) sl (sl_len sl - 1) [Some (fst fresh)]
              in Some (h2\<lparr>hp_vars := (hp_vars h2)
                             (p := pol\<lparr>ph_Rules := sl\<lparr>sl_len := sl_len sl - 1\<rparr>\<rparr>)\<rparr>,
                       True))"

text \<open>
  \<^verbatim>\<open>RemoveRules\<close> on the heap; the ordinals are written to the rules that the receiver
  lists after the removals.
\<close>

definition RemoveRules_h :: "heap \<Rightarrow> nat \<Rightarrow> int list \<Rightarrow> (heap \<times> bool) option" where
  "RemoveRules_h h p ruleOffsets =
     (if length ruleOffsets > 0
      then (case fold_opt (\<lambda>offset h1. map_option fst (RemoveRuleAt_h h1 p offset))
                   (rev ruleOffsets) h of
              None \<Rightarrow> None
            | Some h1 \<Rightarrow>
                map_option (\<lambda>st. (h1\<lparr>hp_store := st\<rparr>, True))
                  (fix_ordinals (hp_store h1) (slice_elems h1 (ph_Rules (hp_vars h1 p))) 0))
      else Some (h, False))"

text \<open>The policy as a value, read through its header.\<close>

definition policy_value :: "heap \<Rightarrow> Policy_hdr \<Rightarrow> Policy" where
  "policy_value h ph =
     \<lparr>p_Name = ph_Name ph, p_Partition = ph_Partition ph, p_Controls = ph_Controls ph,
      p_Requires = ph_Requires ph, p_Rules = slice_elems h (ph_Rules ph)\<rparr>"

text \<open>
  The example configuration on the heap: the array 0 holds the two rule pointers; the
  heap after \<^verbatim>\<open>FindPolicy\<close> (the copy is the variable 0); and the heap after
  \<^verbatim>\<open>RemoveRules\<close> with the offset 0 on the copy.
\<close>

definition ex_slice :: slice where
  "ex_slice = \<lparr>sl_array = 0, sl_off = 0, sl_len = 2\<rparr>"

definition ex_policy_hdr :: "slice \<Rightarrow> Policy_hdr" where
  "ex_policy_hdr sl = \<lparr>ph_Name = ''vs1_policy'', ph_Partition = ''test'',
     ph_Controls = [''forwarding''], ph_Requires = [''http''], ph_Rules = sl\<rparr>"

definition ex_rc_hdr :: ResourceConfig_hdr where
  "ex_rc_hdr = \<lparr>rh_MetaData = rc_MetaData (ex_rc []), rh_Virtual = rc_Virtual (ex_rc []),
     rh_Pools = [], rh_Policies = [ex_policy_hdr ex_slice]\<rparr>"

definition ex_heap :: heap where
  "ex_heap = \<lparr>hp_store = ex_store, hp_arrays = (\<lambda>_. [])(0 := [Some 0, Some 1]),
     hp_vars = (\<lambda>_. ex_policy_hdr \<lparr>sl_array = 0, sl_off = 0, sl_len = 0\<rparr>), hp_next_var = 0\<rparr>"

definition ex_heap_found :: heap where
  "ex_heap_found = ex_heap\<lparr>hp_vars := (hp_vars ex_heap)(0 := ex_policy_hdr ex_slice),
     hp_next_var := 1\<rparr>"

definition ex_heap_removed :: heap where
  "ex_heap_removed =
     \<lparr>hp_store = ex_removed_store, hp_arrays = (\<lambda>_. [])(0 := [Some 1, Some 2]),
      hp_vars = (hp_vars ex_heap)(0 := ex_policy_hdr (ex_slice\<lparr>sl_len := 1\<rparr>)),
      hp_next_var = 1\<rparr>"

section \<open>Properties of the naming utilities\<close>

text \<open>
  Claim C7, as stated, gives \<open>10.1.1.1.20\<close> for the input \<open>10.1.1.1%20\<close>. The
  replacer also rewrites every dot to an underscore, so the code returns
  \<open>10_1_1_1.20\<close>.
\<close>

theorem C7_as3_percent_example_counterexample:
  "AS3NameFormatter ''10.1.1.1%20'' \<noteq> ''10.1.1.1.20''"
  by (simp add: AS3NameFormatter_def as3_replace_byte_def)

text \<open>
  Claim C7 (amended): \<open>AS3NameFormatter "ns1/svc:8080"\<close> is \<open>ns1_svc_8080\<close>; the
  formatter keeps the length of the name and puts a dot at every position that holds a
  percent sign; on \<open>10.1.1.1%20\<close> it returns \<open>10_1_1_1.20\<close> (the dots of the input
  become underscores).
\<close>

theorem C7_as3_name_formatter:
  "AS3NameFormatter ''ns1/svc:8080'' = ''ns1_svc_8080''
   \<and> length (AS3NameFormatter name) = length name
   \<and> (\<forall>i < length name. name ! i = CHR ''%'' \<longrightarrow> AS3NameFormatter name ! i = CHR ''.'')
   \<and> AS3NameFormatter ''10.1.1.1%20'' = ''10_1_1_1.20''"
  by (simp add: AS3NameFormatter_def as3_replace_byte_def)

theorem C7_as3_name_formatter_witness:
  "AS3NameFormatter ''ns1/svc:8080'' = ''ns1_svc_8080''
   \<and> length (AS3NameFormatter ''a%b'') = 3
   \<and> ''a%b'' ! 1 = CHR ''%'' \<and> AS3NameFormatter ''a%b'' ! 1 = CHR ''.''
   \<and> AS3NameFormatter ''10.1.1.1%20'' = ''10_1_1_1.20''"
  using C7_as3_name_formatter [of "''a%b''"]
  by (simp add: AS3NameFormatter_def as3_replace_byte_def)

section \<open>Properties of the virtual address\<close>

lemma split_ip_no_percent:
  "CHR ''%'' \<notin> set address \<Longrightarrow> split_ip_with_route_domain address = (address, [])"
proof -
  assume "CHR ''%'' \<notin> set address"
  then have d: "dropWhile (\<lambda>c. c \<noteq> CHR ''%'') address = []"
    by (auto simp: dropWhile_eq_Nil_conv)
  show ?thesis
    unfolding split_ip_with_route_domain_def d by simp
qed

text \<open>
  Claim C6: \<open>SetVirtualAddress("", 0)\<close> sets the virtual address to nil and the
  destination to the empty string; \<open>SetVirtualAddress("10.1.1.1", 443)\<close> on partition
  \<open>test\<close> sets the destination to \<open>/test/10.1.1.1:443\<close> (given that
  \<^verbatim>\<open>net.ParseIP\<close> reads \<open>10.1.1.1\<close> as an address with a 4-byte form); and whenever
  the IP part of the bind address, after the route domain is split off, does not parse,
  the destination is left empty.
\<close>

theorem C6_set_virtual_address:
  "v_VirtualAddress (SetVirtualAddress ParseIP To4 [] 0 v) = None
   \<and> v_Destination (SetVirtualAddress ParseIP To4 [] 0 v) = []
   \<and> (ParseIP ''10.1.1.1'' = Some a \<and> To4 a \<noteq> None \<and> v_Partition v = ''test'' \<longrightarrow>
        v_Destination (SetVirtualAddress ParseIP To4 ''10.1.1.1'' 443 v) = ''/test/10.1.1.1:443'')
   \<and> (ParseIP (fst (split_ip_with_route_domain bindAddr)) = None \<longrightarrow>
        v_Destination (SetVirtualAddress ParseIP To4 bindAddr port v) = [])"
proof -
  have d443: "fmt_d 443 = ''443''"
    by (simp add: fmt_d_def nat_digits.simps digit_char_def)
  have sp: "split_ip_with_route_domain ''10.1.1.1'' = (''10.1.1.1'', [])"
    by (rule split_ip_no_percent) simp
  have p1: "v_VirtualAddress (SetVirtualAddress ParseIP To4 [] 0 v) = None"
    by (simp add: SetVirtualAddress_def)
  have p2: "v_Destination (SetVirtualAddress ParseIP To4 [] 0 v) = []"
    by (simp add: SetVirtualAddress_def)
  have p3: "ParseIP ''10.1.1.1'' = Some a \<and> To4 a \<noteq> None \<and> v_Partition v = ''test'' \<longrightarrow>
        v_Destination (SetVirtualAddress ParseIP To4 ''10.1.1.1'' 443 v) = ''/test/10.1.1.1:443''"
    by (auto simp: SetVirtualAddress_def sp d443)
  have p4: "ParseIP (fst (split_ip_with_route_domain bindAddr)) = None \<longrightarrow>
        v_Destination (SetVirtualAddress ParseIP To4 bindAddr port v) = []"
    by (auto simp: SetVirtualAddress_def Let_def split: prod.splits)
  from p1 p2 p3 p4 show ?thesis by blast
qed

theorem C6_set_virtual_address_witness:
  "v_VirtualAddress (SetVirtualAddress dotted_quad Some [] 0
      \<lparr>v_Name = ''vs'', v_Partition = ''test'', v_Destination = ''old'', v_Enabled = True,
       v_VirtualAddress = Some \<lparr>BindAddr = ''1.2.3.4'', Port = 80\<rparr>, v_Profiles = [],
       v_Policies = [], v_IRules = []\<rparr>) = None
   \<and> dotted_quad ''10.1.1.1'' = Some [10, 1, 1, 1]
   \<and> v_Destination (SetVirtualAddress dotted_quad Some ''10.1.1.1'' 443
      \<lparr>v_Name = ''vs'', v_Partition = ''test'', v_Destination = ''old'', v_Enabled = True,
       v_VirtualAddress = Some \<lparr>BindAddr = ''1.2.3.4'', Port = 80\<rparr>, v_Profiles = [],
       v_Policies = [], v_IRules = []\<rparr>) = ''/test/10.1.1.1:443''
   \<and> dotted_quad (fst (split_ip_with_route_domain ''10.1.1%7'')) = None
   \<and> v_Destination (SetVirtualAddress dotted_quad Some ''10.1.1%7'' 443
      \<lparr>v_Name = ''vs'', v_Partition = ''test'', v_Destination = ''old'', v_Enabled = True,
       v_VirtualAddress = Some \<lparr>BindAddr = ''1.2.3.4'', Port = 80\<rparr>, v_Profiles = [],
       v_Policies = [], v_IRules = []\<rparr>) = []"
proof -
  have q: "dotted_quad ''10.1.1.1'' = Some [10, 1, 1, 1]"
    by (simp add: dotted_quad_def decimal_field_def is_digit_def digit_val_def)
  have s: "split_ip_with_route_domain ''10.1.1%7'' = (''10.1.1'', ''7'')"
    by (simp add: split_ip_with_route_domain_def is_digit_def)
  have n: "dotted_quad (fst (split_ip_with_route_domain ''10.1.1%7'')) = None"
    by (simp add: s dotted_quad_def decimal_field_def is_digit_def digit_val_def)
  show ?thesis
    using q n
      C6_set_virtual_address [of dotted_quad Some
        "\<lparr>v_Name = ''vs'', v_Partition = ''test'', v_Destination = ''old'', v_Enabled = True,
          v_VirtualAddress = Some \<lparr>BindAddr = ''1.2.3.4'', Port = 80\<rparr>, v_Profiles = [],
          v_Policies = [], v_IRules = []\<rparr>" "[10, 1, 1, 1]" "''10.1.1%7''" 443]
    by simp
qed

section \<open>Properties of the profile list\<close>

lemma search_loop_done: "\<not> i < j \<Longrightarrow> search_loop f i j = i"
  by (subst search_loop.simps) simp

lemma search_loop_step_false:
  "i < j \<Longrightarrow> \<not> f ((i + j) div 2) \<Longrightarrow> search_loop f i j = search_loop f ((i + j) div 2 + 1) j"
  by (subst search_loop.simps) (simp add: Let_def)

lemma search_loop_step_true:
  "i < j \<Longrightarrow> f ((i + j) div 2) \<Longrightarrow> search_loop f i j = search_loop f i ((i + j) div 2)"
  by (subst search_loop.simps) (simp add: Let_def)

lemma search_loop_spec:
  assumes "i \<le> j" "j \<le> n" "\<forall>k < i. \<not> f k" "\<forall>k. j \<le> k \<and> k < n \<longrightarrow> f k"
    and mono: "\<forall>a b. a \<le> b \<and> b < n \<and> f a \<longrightarrow> f b"
  shows "search_loop f i j \<le> n \<and> (\<forall>k < search_loop f i j. \<not> f k)
         \<and> (\<forall>k. search_loop f i j \<le> k \<and> k < n \<longrightarrow> f k)"
  using assms
proof (induction f i j rule: search_loop.induct)
  case (1 f i j)
  show ?case
  proof (cases "i < j")
    case False
    with "1.prems" have ij: "i = j" by simp
    have r: "search_loop f i j = i" using False by (rule search_loop_done)
    show ?thesis unfolding r using "1.prems" ij by blast
  next
    case True
    define h where "h = (i + j) div 2"
    from True have h: "i \<le> h" "h < j" by (auto simp: h_def)
    show ?thesis
    proof (cases "f h")
      case True
      have r: "search_loop f i j = search_loop f i h"
        using \<open>i < j\<close> True unfolding h_def by (rule search_loop_step_true)
      have up: "\<forall>k. h \<le> k \<and> k < n \<longrightarrow> f k"
        using True "1.prems"(5) by blast
      have hn: "h \<le> n" using h "1.prems"(2) by simp
      have "search_loop f i h \<le> n \<and> (\<forall>k < search_loop f i h. \<not> f k)
         \<and> (\<forall>k. search_loop f i h \<le> k \<and> k < n \<longrightarrow> f k)"
        using "1.IH"(2)[OF \<open>i < j\<close> h_def] True h(1) hn "1.prems"(3) up "1.prems"(5)
        unfolding h_def by blast
      then show ?thesis unfolding r .
    next
      case False
      have r: "search_loop f i j = search_loop f (h + 1) j"
        using \<open>i < j\<close> False unfolding h_def by (rule search_loop_step_false)
      have hn: "h < n" using h "1.prems"(2) by simp
      have lo: "\<forall>k < h + 1. \<not> f k"
      proof (intro allI impI)
        fix k assume "k < h + 1"
        then have kh: "k \<le> h" by simp
        show "\<not> f k"
        proof
          assume "f k"
          with kh hn "1.prems"(5) have "f h" by blast
          with False show False by simp
        qed
      qed
      have hj: "h + 1 \<le> j" using h by simp
      have "search_loop f (h + 1) j \<le> n \<and> (\<forall>k < search_loop f (h + 1) j. \<not> f k)
         \<and> (\<forall>k. search_loop f (h + 1) j \<le> k \<and> k < n \<longrightarrow> f k)"
        using "1.IH"(1)[OF \<open>i < j\<close> h_def] False hj "1.prems"(2) lo "1.prems"(4) "1.prems"(5)
        unfolding h_def by blast
      then show ?thesis unfolding r .
    qed
  qed
qed

lemma Less_key: "ProfileRefs_Less a b \<longleftrightarrow> profile_key a < profile_key b"
  by (auto simp: ProfileRefs_Less_def profile_key_def less_prod_def')

lemma profiles_inv_strict:
  "profiles_sorted ps \<and> profiles_unique ps \<longleftrightarrow> sorted_wrt (<) (map profile_key ps)"
proof -
  have "profiles_sorted ps \<longleftrightarrow> sorted (map profile_key ps)"
    by (simp add: profiles_sorted_def Less_key sorted_wrt_map not_less)
  then show ?thesis
    by (auto simp: profiles_unique_def strict_sorted_iff)
qed

lemma keyFunc_key: "keyFunc_of ps prof i \<longleftrightarrow> profile_key prof \<le> profile_key (ps ! i)"
  by (auto simp: keyFunc_of_def profile_key_def)

lemma search_profiles:
  fixes ps :: "ProfileRef list" and prof :: ProfileRef
  assumes "sorted_wrt (<) (map profile_key ps)"
  defines "i \<equiv> sort_Search (length ps) (keyFunc_of ps prof)"
  shows "i \<le> length ps"
    and "\<forall>k < i. profile_key (ps ! k) < profile_key prof"
    and "\<forall>k. i \<le> k \<and> k < length ps \<longrightarrow> profile_key prof \<le> profile_key (ps ! k)"
proof -
  have mono: "\<forall>a b. a \<le> b \<and> b < length ps \<and> keyFunc_of ps prof a \<longrightarrow> keyFunc_of ps prof b"
  proof (intro allI impI)
    fix a b assume h: "a \<le> b \<and> b < length ps \<and> keyFunc_of ps prof a"
    then have "profile_key (ps ! a) \<le> profile_key (ps ! b)"
      using assms(1) by (cases "a = b") (auto simp: sorted_wrt_iff_nth_less less_imp_le)
    with h show "keyFunc_of ps prof b" by (auto simp: keyFunc_key)
  qed
  have "search_loop (keyFunc_of ps prof) 0 (length ps) \<le> length ps
      \<and> (\<forall>k < search_loop (keyFunc_of ps prof) 0 (length ps). \<not> keyFunc_of ps prof k)
      \<and> (\<forall>k. search_loop (keyFunc_of ps prof) 0 (length ps) \<le> k \<and> k < length ps
              \<longrightarrow> keyFunc_of ps prof k)"
    by (rule search_loop_spec) (use mono in auto)
  then show "i \<le> length ps"
    and "\<forall>k < i. profile_key (ps ! k) < profile_key prof"
    and "\<forall>k. i \<le> k \<and> k < length ps \<longrightarrow> profile_key prof \<le> profile_key (ps ! k)"
    by (auto simp: i_def sort_Search_def keyFunc_key not_le)
qed

lemma AddOrUpdateProfile_alt:
  "AddOrUpdateProfile v prof =
     (let ps = v_Profiles v; i = sort_Search (length ps) (keyFunc_of ps prof)
      in if i < length ps \<and> profile_key (ps ! i) = profile_key prof
         then (if pr_Context (ps ! i) = pr_Context prof
               then (v, False)
               else (v\<lparr>v_Profiles := ps[i := prof]\<rparr>, True))
         else (v\<lparr>v_Profiles := take i ps @ [prof] @ drop i ps\<rparr>, True))"
proof -
  have k: "(\<lambda>i. pr_Partition (v_Profiles v ! i) > pr_Partition prof
                        \<or> (pr_Partition (v_Profiles v ! i) = pr_Partition prof
                            \<and> pr_Name (v_Profiles v ! i) \<ge> pr_Name prof)) = keyFunc_of (v_Profiles v) prof"
    by (rule ext) (simp add: keyFunc_of_def)
  show ?thesis
    unfolding AddOrUpdateProfile_def k by (auto simp: Let_def profile_key_def)
qed

lemma insert_strict_sorted:
  assumes s: "sorted_wrt (<) (map f ps)" and i: "i \<le> length ps"
    and lo: "\<forall>k < i. f (ps ! k) < (x :: 'b :: linorder)"
    and hi: "\<forall>k. i \<le> k \<and> k < length ps \<longrightarrow> x < f (ps ! k)"
  shows "sorted_wrt (<) (map f (take i ps) @ [x] @ map f (drop i ps))"
proof -
  have a: "sorted_wrt (<) (map f (take i ps))"
    using s by (metis sorted_wrt_take take_map)
  have b: "sorted_wrt (<) (map f (drop i ps))"
    using s by (metis sorted_wrt_drop drop_map)
  have c: "\<forall>y \<in> set (take i ps). f y < x"
    using lo i by (auto simp: in_set_conv_nth)
  have d: "\<forall>y \<in> set (drop i ps). x < f y"
    using hi i by (auto simp: in_set_conv_nth)
  from c d have e: "\<forall>y \<in> set (take i ps). \<forall>z \<in> set (drop i ps). f y < f z"
    by (meson less_trans)
  show ?thesis
    using a b c d e by (auto simp: sorted_wrt_append)
qed

lemma AddOrUpdateProfile_keeps_strict:
  assumes "sorted_wrt (<) (map profile_key (v_Profiles v))"
  shows "sorted_wrt (<) (map profile_key (v_Profiles (fst (AddOrUpdateProfile v prof))))"
proof -
  define ps where "ps = v_Profiles v"
  define i where "i = sort_Search (length ps) (keyFunc_of ps prof)"
  have s: "sorted_wrt (<) (map profile_key ps)" using assms by (simp add: ps_def)
  note sp = search_profiles [OF s, of prof, folded i_def]
  show ?thesis
  proof (cases "i < length ps \<and> profile_key (ps ! i) = profile_key prof")
    case True
    then have "map profile_key (ps[i := prof]) = map profile_key ps"
      by (simp add: map_update) (metis list_update_id nth_map)
    with True s show ?thesis
      by (simp add: AddOrUpdateProfile_alt Let_def ps_def [symmetric] i_def [symmetric])
  next
    case False
    have hi: "\<forall>k. i \<le> k \<and> k < length ps \<longrightarrow> profile_key prof < profile_key (ps ! k)"
    proof (intro allI impI)
      fix k assume k: "i \<le> k \<and> k < length ps"
      then have il: "i < length ps" by simp
      with False have ne: "profile_key (ps ! i) \<noteq> profile_key prof" by simp
      from sp(3) il have "profile_key prof \<le> profile_key (ps ! i)" by simp
      with ne have lt: "profile_key prof < profile_key (ps ! i)" by simp
      have "profile_key (ps ! i) \<le> profile_key (ps ! k)"
        using s k by (cases "i = k") (auto simp: sorted_wrt_iff_nth_less less_imp_le)
      with lt show "profile_key prof < profile_key (ps ! k)" by simp
    qed
    have "sorted_wrt (<) (map profile_key (take i ps) @ [profile_key prof] @ map profile_key (drop i ps))"
      by (rule insert_strict_sorted [OF s sp(1) sp(2) hi])
    moreover have "AddOrUpdateProfile v prof = (v\<lparr>v_Profiles := take i ps @ [prof] @ drop i ps\<rparr>, True)"
      using False
      by (auto simp: AddOrUpdateProfile_alt Let_def ps_def [symmetric] i_def [symmetric])
    ultimately show ?thesis by simp
  qed
qed

lemma AddOrUpdateProfile_present:
  assumes s: "sorted_wrt (<) (map profile_key (v_Profiles v))"
    and q: "q \<in> set (v_Profiles v)" "profile_key q = profile_key prof" "pr_Context q = pr_Context prof"
  shows "AddOrUpdateProfile v prof = (v, False)"
proof -
  define ps where "ps = v_Profiles v"
  define i where "i = sort_Search (length ps) (keyFunc_of ps prof)"
  have s': "sorted_wrt (<) (map profile_key ps)" using s by (simp add: ps_def)
  note sp = search_profiles [OF s', of prof, folded i_def]
  from q(1) obtain m where m: "m < length ps" "ps ! m = q"
    by (auto simp: in_set_conv_nth ps_def)
  have "\<not> m < i" using sp(2) m q(2) by auto
  then have im: "i \<le> m" by simp
  have "i = m"
  proof (rule ccontr)
    assume "i \<noteq> m"
    with im have "i < m" by simp
    then have "profile_key (ps ! i) < profile_key (ps ! m)"
      using s' m by (auto simp: sorted_wrt_iff_nth_less)
    moreover have "profile_key prof \<le> profile_key (ps ! i)"
      using sp(3) \<open>i < m\<close> m by simp
    ultimately show False using m q(2) by simp
  qed
  with m q show ?thesis
    by (simp add: AddOrUpdateProfile_alt Let_def ps_def [symmetric] i_def [symmetric])
qed

lemma add_profiles_keeps_strict:
  "sorted_wrt (<) (map profile_key (v_Profiles v)) \<Longrightarrow>
   sorted_wrt (<) (map profile_key (v_Profiles (add_profiles v profs)))"
  unfolding add_profiles_def
  by (induction profs arbitrary: v) (simp_all add: AddOrUpdateProfile_keeps_strict)

text \<open>
  Claim C4: from a profile list that is sorted by (partition, name) and has no duplicate
  (partition, name) pair, every sequence of \<open>AddOrUpdateProfile\<close> calls leaves a list
  that is sorted and has no duplicate pair; and a call whose profile is already in the
  list, with the same partition, name and context, returns false and changes nothing.
\<close>

theorem C4_profiles_sorted_unique:
  assumes "profiles_sorted (v_Profiles v)" and "profiles_unique (v_Profiles v)"
  shows "profiles_sorted (v_Profiles (add_profiles v profs))
       \<and> profiles_unique (v_Profiles (add_profiles v profs))
       \<and> (\<forall>q \<in> set (v_Profiles v).
            pr_Partition q = pr_Partition prof \<and> pr_Name q = pr_Name prof
            \<and> pr_Context q = pr_Context prof \<longrightarrow> AddOrUpdateProfile v prof = (v, False))"
proof -
  from assms have s: "sorted_wrt (<) (map profile_key (v_Profiles v))"
    using profiles_inv_strict by blast
  have "sorted_wrt (<) (map profile_key (v_Profiles (add_profiles v profs)))"
    using s by (rule add_profiles_keeps_strict)
  then have a: "profiles_sorted (v_Profiles (add_profiles v profs))
       \<and> profiles_unique (v_Profiles (add_profiles v profs))"
    using profiles_inv_strict by blast
  have b: "\<forall>q \<in> set (v_Profiles v).
            pr_Partition q = pr_Partition prof \<and> pr_Name q = pr_Name prof
            \<and> pr_Context q = pr_Context prof \<longrightarrow> AddOrUpdateProfile v prof = (v, False)"
    using AddOrUpdateProfile_present [OF s] by (auto simp: profile_key_def)
  from a b show ?thesis by blast
qed


theorem C4_profiles_sorted_unique_witness:
  "profiles_sorted (v_Profiles (virtual_with [prof_of ''Common'' ''b'' ''clientside'']))
   \<and> profiles_unique (v_Profiles (virtual_with [prof_of ''Common'' ''b'' ''clientside'']))
   \<and> profiles_sorted (v_Profiles (add_profiles (virtual_with [prof_of ''Common'' ''b'' ''clientside''])
        [prof_of ''Common'' ''a'' ''serverside'', prof_of ''Abc'' ''z'' ''all'',
         prof_of ''Common'' ''b'' ''all'', prof_of ''Common'' ''c'' ''all'']))
   \<and> profiles_unique (v_Profiles (add_profiles (virtual_with [prof_of ''Common'' ''b'' ''clientside''])
        [prof_of ''Common'' ''a'' ''serverside'', prof_of ''Abc'' ''z'' ''all'',
         prof_of ''Common'' ''b'' ''all'', prof_of ''Common'' ''c'' ''all'']))
   \<and> v_Profiles (add_profiles (virtual_with [prof_of ''Common'' ''b'' ''clientside''])
        [prof_of ''Common'' ''a'' ''serverside'', prof_of ''Abc'' ''z'' ''all'',
         prof_of ''Common'' ''b'' ''all'', prof_of ''Common'' ''c'' ''all''])
      = [prof_of ''Abc'' ''z'' ''all'', prof_of ''Common'' ''a'' ''serverside'',
         prof_of ''Common'' ''b'' ''all'', prof_of ''Common'' ''c'' ''all'']
   \<and> AddOrUpdateProfile (virtual_with [prof_of ''Common'' ''b'' ''clientside''])
        (prof_of ''Common'' ''b'' ''clientside'')
      = (virtual_with [prof_of ''Common'' ''b'' ''clientside''], False)"
proof -
  have i: "profiles_sorted (v_Profiles (virtual_with [prof_of ''Common'' ''b'' ''clientside'']))"
    "profiles_unique (v_Profiles (virtual_with [prof_of ''Common'' ''b'' ''clientside'']))"
    by (simp_all add: profiles_sorted_def profiles_unique_def virtual_with_def)
  have e: "v_Profiles (add_profiles (virtual_with [prof_of ''Common'' ''b'' ''clientside''])
        [prof_of ''Common'' ''a'' ''serverside'', prof_of ''Abc'' ''z'' ''all'',
         prof_of ''Common'' ''b'' ''all'', prof_of ''Common'' ''c'' ''all''])
      = [prof_of ''Abc'' ''z'' ''all'', prof_of ''Common'' ''a'' ''serverside'',
         prof_of ''Common'' ''b'' ''all'', prof_of ''Common'' ''c'' ''all'']"
    by code_simp
  have m: "prof_of ''Common'' ''b'' ''clientside''
      \<in> set (v_Profiles (virtual_with [prof_of ''Common'' ''b'' ''clientside'']))"
    by (simp add: virtual_with_def)
  from C4_profiles_sorted_unique [OF i,
      of "[prof_of ''Common'' ''a'' ''serverside'', prof_of ''Abc'' ''z'' ''all'',
         prof_of ''Common'' ''b'' ''all'', prof_of ''Common'' ''c'' ''all'']"
         "prof_of ''Common'' ''b'' ''clientside''"]
  show ?thesis using i e m by blast
qed

section \<open>Properties of the dependency tracker\<close>

lemma removed_fold:
  "foldl (\<lambda>removed oldDep.
              if map_of newDeps oldDep = None
              then (if od_Kind oldDep = RuleDep then [oldDep] @ removed else removed @ [oldDep])
              else removed) acc ks
   = rev (filter (\<lambda>d. map_of newDeps d = None \<and> od_Kind d = RuleDep) ks) @ acc
     @ filter (\<lambda>d. map_of newDeps d = None \<and> od_Kind d \<noteq> RuleDep) ks"
  by (induction ks arbitrary: acc) auto

lemma removed_deps_split:
  "removed_deps oldDeps newDeps
   = rev (filter (\<lambda>d. map_of newDeps d = None \<and> od_Kind d = RuleDep) (map fst oldDeps))
     @ filter (\<lambda>d. map_of newDeps d = None \<and> od_Kind d \<noteq> RuleDep) (map fst oldDeps)"
  by (simp add: removed_deps_def removed_fold)

lemma added_fold:
  "foldl (\<lambda>added newDep. if map_of oldDeps newDep = None then added @ [newDep] else added) acc ks
   = acc @ filter (\<lambda>d. map_of oldDeps d = None) ks"
  by (induction ks arbitrary: acc) auto

lemma added_deps_filter:
  "added_deps oldDeps newDeps = filter (\<lambda>d. map_of oldDeps d = None) (map fst newDeps)"
  by (simp add: added_deps_def added_fold)

lemma append_positions:
  assumes xs: "\<forall>x \<in> set xs. P x" and ys: "\<forall>y \<in> set ys. \<not> P y"
    and i: "i < length (xs @ ys)" and j: "j < length (xs @ ys)"
    and pi: "P ((xs @ ys) ! i)" and pj: "\<not> P ((xs @ ys) ! j)"
  shows "i < j"
proof -
  have "i < length xs"
  proof (rule ccontr)
    assume n: "\<not> i < length xs"
    then have "(xs @ ys) ! i = ys ! (i - length xs)" by (simp add: nth_append)
    moreover have "i - length xs < length ys" using n i by simp
    ultimately have "(xs @ ys) ! i \<in> set ys" by simp
    with ys pi show False by blast
  qed
  moreover have "\<not> j < length xs"
  proof
    assume "j < length xs"
    then have "(xs @ ys) ! j \<in> set xs" by (simp add: nth_append)
    with xs pj show False by blast
  qed
  ultimately show ?thesis by simp
qed

lemma distinct_set_singleton: "distinct xs \<Longrightarrow> set xs = {x} \<Longrightarrow> xs = [x]"
proof (cases xs)
  case Nil
  assume "set xs = {x}"
  with Nil show ?thesis by simp
next
  case (Cons a as)
  assume d: "distinct xs" and s: "set xs = {x}"
  from s Cons have a: "a = x" by auto
  from s Cons have "set as \<subseteq> {x}" by auto
  moreover from d Cons a have "x \<notin> set as" by simp
  ultimately have "as = []" by (cases as) auto
  with Cons a show ?thesis by simp
qed

lemma removed_deps_example:
  assumes "distinct (map fst oldDeps)" "set (map fst oldDeps) = {A, R1}"
    and "set (map fst newDeps) = {A, R2}" "A \<noteq> R1" "R1 \<noteq> R2"
  shows "removed_deps oldDeps newDeps = [R1]"
proof -
  have absent: "\<And>d. map_of newDeps d = None \<longleftrightarrow> d \<notin> {A, R2}"
    using assms(3) by (simp add: map_of_eq_None_iff)
  have "distinct (removed_deps oldDeps newDeps)"
    using assms(1) by (auto simp: removed_deps_split)
  moreover have "set (removed_deps oldDeps newDeps) = {R1}"
    using assms(2,4,5) by (auto simp: removed_deps_split absent)
  ultimately show ?thesis by (rule distinct_set_singleton)
qed

lemma added_deps_example:
  assumes "distinct (map fst newDeps)" "set (map fst newDeps) = {A, R2}"
    and "set (map fst oldDeps) = {A, R1}" "A \<noteq> R2" "R1 \<noteq> R2"
  shows "added_deps oldDeps newDeps = [R2]"
proof -
  have absent: "\<And>d. map_of oldDeps d = None \<longleftrightarrow> d \<notin> {A, R1}"
    using assms(3) by (simp add: map_of_eq_None_iff)
  have "distinct (added_deps oldDeps newDeps)"
    using assms(1) by (auto simp: added_deps_filter)
  moreover have "set (added_deps oldDeps newDeps) = {R2}"
    using assms(2,4,5) by (auto simp: added_deps_filter absent)
  ultimately show ?thesis by (rule distinct_set_singleton)
qed

text \<open>
  Claim C5: when a dependency set is recorded for \<open>newKey\<close>, every dependency of kind
  \<open>Rule\<close> in the removed list stands before every removed dependency of another kind,
  whatever the order in which the two maps are iterated; and with the old set \<open>{A, R1}\<close>
  and the new set \<open>{A, R2}\<close> the removed list is \<open>[R1]\<close> and the added list is \<open>[R2]\<close>.
\<close>

theorem C5_rule_dependencies_first:
  assumes "objDeps rs newKey = Some oldDeps"
    and "UpdateDependencies rs newKey newDeps lookupFunc = (rs', added, removed)"
  shows "(\<forall>i j. i < length removed \<and> j < length removed
            \<and> od_Kind (removed ! i) = RuleDep \<and> od_Kind (removed ! j) \<noteq> RuleDep \<longrightarrow> i < j)
       \<and> (distinct (map fst oldDeps) \<and> set (map fst oldDeps) = {A, R1}
          \<and> distinct (map fst newDeps) \<and> set (map fst newDeps) = {A, R2}
          \<and> A \<noteq> R1 \<and> A \<noteq> R2 \<and> R1 \<noteq> R2
          \<longrightarrow> removed = [R1] \<and> added = [R2])"
proof -
  from assms have r: "removed = removed_deps oldDeps newDeps"
    and a: "added = added_deps oldDeps newDeps"
    by (simp_all add: UpdateDependencies_def)
  have order: "\<forall>i j. i < length removed \<and> j < length removed
            \<and> od_Kind (removed ! i) = RuleDep \<and> od_Kind (removed ! j) \<noteq> RuleDep \<longrightarrow> i < j"
  proof (intro allI impI)
    fix i j
    assume h: "i < length removed \<and> j < length removed
            \<and> od_Kind (removed ! i) = RuleDep \<and> od_Kind (removed ! j) \<noteq> RuleDep"
    show "i < j"
      by (rule append_positions [where P = "\<lambda>d. od_Kind d = RuleDep"
            and xs = "rev (filter (\<lambda>d. map_of newDeps d = None \<and> od_Kind d = RuleDep) (map fst oldDeps))"
            and ys = "filter (\<lambda>d. map_of newDeps d = None \<and> od_Kind d \<noteq> RuleDep) (map fst oldDeps)"])
         (use h r in \<open>auto simp: removed_deps_split\<close>)
  qed
  have ex: "distinct (map fst oldDeps) \<and> set (map fst oldDeps) = {A, R1}
          \<and> distinct (map fst newDeps) \<and> set (map fst newDeps) = {A, R2}
          \<and> A \<noteq> R1 \<and> A \<noteq> R2 \<and> R1 \<noteq> R2
          \<longrightarrow> removed = [R1] \<and> added = [R2]"
    using removed_deps_example [of oldDeps A R1 newDeps R2]
      added_deps_example [of newDeps A R2 oldDeps R1]
    by (simp add: r a)
  from order ex show ?thesis by blast
qed

theorem C5_rule_dependencies_first_witness:
  "UpdateDependencies
     \<lparr>rsMap = [],
      objDeps = [dep_of ''VirtualServer'' ''vs'' \<mapsto>
                   [(dep_of ''VirtualServer'' ''vs'', 1), (dep_of ''Service'' ''svc1'', 1),
                    (dep_of ''Rule'' ''foo.com/a'', 1), (dep_of ''Rule'' ''foo.com/b'', 1)]],
      oldRsMap = []\<rparr>
     (dep_of ''VirtualServer'' ''vs'')
     [(dep_of ''VirtualServer'' ''vs'', 1), (dep_of ''Rule'' ''foo.com/c'', 1)] (\<lambda>_. True)
   = (\<lparr>rsMap = [],
       objDeps = [dep_of ''VirtualServer'' ''vs'' \<mapsto>
                   [(dep_of ''VirtualServer'' ''vs'', 1), (dep_of ''Rule'' ''foo.com/c'', 1)]],
       oldRsMap = []\<rparr>,
      [dep_of ''Rule'' ''foo.com/c''],
      [dep_of ''Rule'' ''foo.com/b'', dep_of ''Rule'' ''foo.com/a'', dep_of ''Service'' ''svc1''])
   \<and> UpdateDependencies
     \<lparr>rsMap = [],
      objDeps = [dep_of ''VirtualServer'' ''vs'' \<mapsto>
                   [(dep_of ''Rule'' ''foo.com/a'', 1), (dep_of ''VirtualServer'' ''vs'', 1)]],
      oldRsMap = []\<rparr>
     (dep_of ''VirtualServer'' ''vs'')
     [(dep_of ''VirtualServer'' ''vs'', 1), (dep_of ''Rule'' ''foo.com/c'', 1)] (\<lambda>_. True)
   = (\<lparr>rsMap = [],
       objDeps = [dep_of ''VirtualServer'' ''vs'' \<mapsto>
                   [(dep_of ''VirtualServer'' ''vs'', 1), (dep_of ''Rule'' ''foo.com/c'', 1)]],
       oldRsMap = []\<rparr>,
      [dep_of ''Rule'' ''foo.com/c''], [dep_of ''Rule'' ''foo.com/a''])"
proof -
  let ?rs = "\<lparr>rsMap = [],
      objDeps = [dep_of ''VirtualServer'' ''vs'' \<mapsto>
                   [(dep_of ''Rule'' ''foo.com/a'', 1), (dep_of ''VirtualServer'' ''vs'', 1)]],
      oldRsMap = []\<rparr>"
  let ?new = "[(dep_of ''VirtualServer'' ''vs'', 1), (dep_of ''Rule'' ''foo.com/c'', 1)]"
  have o: "objDeps ?rs (dep_of ''VirtualServer'' ''vs'')
      = Some [(dep_of ''Rule'' ''foo.com/a'', 1), (dep_of ''VirtualServer'' ''vs'', 1)]"
    by simp
  obtain rs' added removed where
    u: "UpdateDependencies ?rs (dep_of ''VirtualServer'' ''vs'') ?new (\<lambda>_. True) = (rs', added, removed)"
    by (metis prod_cases3)
  from C5_rule_dependencies_first [OF o u,
      of "dep_of ''VirtualServer'' ''vs''" "dep_of ''Rule'' ''foo.com/a''" "dep_of ''Rule'' ''foo.com/c''"]
  have "removed = [dep_of ''Rule'' ''foo.com/a''] \<and> added = [dep_of ''Rule'' ''foo.com/c'']"
    by (simp add: dep_of_def insert_commute)
  moreover from u have "rs' = ?rs\<lparr>objDeps := (objDeps ?rs)(dep_of ''VirtualServer'' ''vs'' \<mapsto> ?new)\<rparr>"
    by (simp add: UpdateDependencies_def)
  ultimately have second: "UpdateDependencies ?rs (dep_of ''VirtualServer'' ''vs'') ?new (\<lambda>_. True)
      = (\<lparr>rsMap = [], objDeps = [dep_of ''VirtualServer'' ''vs'' \<mapsto> ?new], oldRsMap = []\<rparr>,
         [dep_of ''Rule'' ''foo.com/c''], [dep_of ''Rule'' ''foo.com/a''])"
    using u by simp
  have first: "UpdateDependencies
     \<lparr>rsMap = [],
      objDeps = [dep_of ''VirtualServer'' ''vs'' \<mapsto>
                   [(dep_of ''VirtualServer'' ''vs'', 1), (dep_of ''Service'' ''svc1'', 1),
                    (dep_of ''Rule'' ''foo.com/a'', 1), (dep_of ''Rule'' ''foo.com/b'', 1)]],
      oldRsMap = []\<rparr>
     (dep_of ''VirtualServer'' ''vs'') ?new (\<lambda>_. True)
   = (\<lparr>rsMap = [], objDeps = [dep_of ''VirtualServer'' ''vs'' \<mapsto> ?new], oldRsMap = []\<rparr>,
      [dep_of ''Rule'' ''foo.com/c''],
      [dep_of ''Rule'' ''foo.com/b'', dep_of ''Rule'' ''foo.com/a'', dep_of ''Service'' ''svc1''])"
    by (simp add: UpdateDependencies_def added_deps_def removed_deps_def dep_of_def RuleDep_def)
  from first second show ?thesis by simp
qed

section \<open>Properties of the policy and rule engine\<close>

lemma ex_markers: "has_marker ''app-root-redirect-rule-foo''" "\<not> has_marker ''vs_foo_svc1''"
  by (simp_all add: has_marker_def)

lemma ex_suffixes:
  "\<not> HasSuffix ''app-root-redirect-rule-foo'' ''-reset''" "\<not> HasSuffix ''vs_foo_svc1'' ''-reset''"
  by (simp_all add: HasSuffix_def)

lemmas ex_defs = ex_rc_def ex_policy_def ex_store_def ex_app_def ex_fwd_def ex_cond_def
  ex_actions_def ex_merged_store_def ex_merged_map_def

lemmas merge_defs = MergeRules_def FindPolicy_def GetName_def merge_row_def merge_pair_def
  num_matches_def condition_eq_blind_def merge_into_def action_eq_blind_def len0_def
  unique_indices_def delete_at_def SetPolicy_def Let_def

lemma ex_merge: "MergeRules (ex_rc [Some 0, Some 1]) ex_store Map.empty
   = Some (ex_rc [Some 1], ex_merged_store, ex_merged_map)"
  by (simp add: merge_defs ex_defs ex_markers ex_suffixes)





lemma fold_opt_invariant:
  assumes step: "\<And>x s s'. f x s = Some s' \<Longrightarrow> Q s \<Longrightarrow> Q s'"
    and run: "fold_opt f xs s = Some s'" and start: "Q s"
  shows "Q s'"
  using run start
proof (induction xs arbitrary: s)
  case Nil
  then show ?case by simp
next
  case (Cons x xs)
  from Cons.prems(1) obtain s1 where s1: "f x s = Some s1" and r: "fold_opt f xs s1 = Some s'"
    by (auto split: option.splits)
  from step [OF s1 Cons.prems(2)] have "Q s1" .
  with Cons.IH [OF r] show ?case by simp
qed

lemma fix_ordinals_other:
  "fix_ordinals s rs i = Some s' \<Longrightarrow> Some a \<notin> set rs \<Longrightarrow> st_rules s' a = st_rules s a"
proof (induction s rs i rule: fix_ordinals.induct)
  case (1 s i)
  then show ?case by simp
next
  case (2 s rs i)
  then show ?case by simp
next
  case (3 s b rs i)
  from "3.prems" have ne: "a \<noteq> b" and nin: "Some a \<notin> set rs" by auto
  from "3.IH" "3.prems"(1) nin ne show ?case by simp
qed

lemma fix_ordinals_contiguous:
  "fix_ordinals s rs i = Some s' \<Longrightarrow> distinct rs \<Longrightarrow>
   rule_ordinals s' rs = map (\<lambda>k. Some (i + int k)) [0 ..< length rs]"
proof (induction s rs i arbitrary: rule: fix_ordinals.induct)
  case (1 s i)
  then show ?case by (simp add: rule_ordinals_def)
next
  case (2 s rs i)
  then show ?case by simp
next
  case (3 s b rs i)
  let ?s1 = "s\<lparr>st_rules := (st_rules s)(b := (st_rules s b)\<lparr>r_Ordinal := i\<rparr>)\<rparr>"
  from "3.prems" have run: "fix_ordinals ?s1 rs (i + 1) = Some s'"
    and nin: "Some b \<notin> set rs" and d: "distinct rs" by auto
  have hd: "r_Ordinal (st_rules s' b) = i"
    using fix_ordinals_other [OF run nin] by simp
  have tl: "rule_ordinals s' rs = map (\<lambda>k. Some (i + 1 + int k)) [0 ..< length rs]"
    using "3.IH" [OF run d] .
  have "map (\<lambda>k. Some (i + int k)) [0 ..< length (Some b # rs)]
      = Some i # map (\<lambda>k. Some (i + 1 + int k)) [0 ..< length rs]"
  proof -
    have "[0 ..< Suc (length rs)] = 0 # map Suc [0 ..< length rs]"
      by (simp only: upt_conv_Cons [of 0 "Suc (length rs)"] map_Suc_upt zero_less_Suc)
    then show ?thesis by (simp add: comp_def)
  qed
  with hd tl show ?case by (simp add: rule_ordinals_def)
qed

lemma distinct_delete_at: "distinct xs \<Longrightarrow> distinct (delete_at i xs)"
  unfolding delete_at_def
  using set_take_disj_set_drop_if_distinct [of xs i "Suc i"] by simp

lemma RemoveRuleAt_distinct:
  "RemoveRuleAt s pol offset = Some (s', pol', b) \<Longrightarrow> distinct (p_Rules pol) \<Longrightarrow> distinct (p_Rules pol')"
  by (auto simp: RemoveRuleAt_def distinct_delete_at split: if_splits)


lemma RemoveRules_contiguous:
  assumes run: "RemoveRules s pol ruleOffsets = Some (s', pol', changed)"
    and ne: "ruleOffsets \<noteq> []" and d: "distinct (p_Rules pol)"
  shows "ordinals_contiguous s' (p_Rules pol')"
proof -
  let ?f = "\<lambda>offset (s1, pol1).
              map_option (\<lambda>(s2, pol2, _). (s2, pol2)) (RemoveRuleAt s1 pol1 offset)"
  from run ne obtain s1 where
    f: "fold_opt ?f (rev ruleOffsets) (s, pol) = Some (s1, pol')"
    and o: "fix_ordinals s1 (p_Rules pol') 0 = Some s'"
    by (auto simp: RemoveRules_def split: option.splits)
  have "distinct (p_Rules (snd (s1, pol')))"
  proof (rule fold_opt_invariant [where Q = "\<lambda>st. distinct (p_Rules (snd st))", OF _ f])
    fix x st st'
    assume "?f x st = Some st'" and "distinct (p_Rules (snd st))"
    then show "distinct (p_Rules (snd st'))"
      by (cases st) (auto dest: RemoveRuleAt_distinct)
  next
    show "distinct (p_Rules (snd (s, pol)))" using d by simp
  qed
  then have "distinct (p_Rules pol')" by simp
  from fix_ordinals_contiguous [OF o this] show ?thesis
    by (simp add: ordinals_contiguous_def)
qed

lemma merge_into_store:
  "merge_into key mergee merger s mm = Some (s', mm') \<Longrightarrow>
   \<exists>acts. s' = s\<lparr>st_rules := (st_rules s)(merger := (st_rules s merger)\<lparr>r_Actions := acts\<rparr>)\<rparr>"
  unfolding merge_into_def Let_def
  by (auto split: option.splits if_splits prod.splits)

lemma merge_into_ordinal:
  "merge_into key mergee merger s mm = Some (s', mm') \<Longrightarrow>
   r_Ordinal (st_rules s' a) = r_Ordinal (st_rules s a)"
  by (drule merge_into_store) auto

lemma merge_pair_ordinal:
  "merge_pair key rules i j st = Some st' \<Longrightarrow>
   r_Ordinal (st_rules (fst st') a) = r_Ordinal (st_rules (fst st) a)"
  unfolding merge_pair_def Let_def
  by (auto split: option.splits if_splits prod.splits dest: merge_into_ordinal)

lemma merge_row_ordinal:
  assumes "merge_row key rules i st = Some st'"
  shows "r_Ordinal (st_rules (fst st') a) = r_Ordinal (st_rules (fst st) a)"
proof (cases "rules ! i")
  case None
  with assms show ?thesis by (simp add: merge_row_def)
next
  case (Some ai)
  show ?thesis
  proof (cases "HasSuffix (r_Name (st_rules (fst st) ai)) ''-reset''")
    case True
    with assms Some show ?thesis by (simp add: merge_row_def)
  next
    case False
    with assms Some have f: "fold_opt (merge_pair key rules i) [i + 1 ..< length rules] st = Some st'"
      by (simp add: merge_row_def)
    show ?thesis
    proof (rule fold_opt_invariant
            [where Q = "\<lambda>t. r_Ordinal (st_rules (fst t) a) = r_Ordinal (st_rules (fst st) a)", OF _ f])
      fix x t t'
      assume "merge_pair key rules i x t = Some t'"
        and "r_Ordinal (st_rules (fst t) a) = r_Ordinal (st_rules (fst st) a)"
      then show "r_Ordinal (st_rules (fst t') a) = r_Ordinal (st_rules (fst st) a)"
        using merge_pair_ordinal [of key rules i x t t' a] by simp
    qed simp
  qed
qed

lemma MergeRules_ordinal:
  assumes "MergeRules rc s mm = Some (rc', s', mm')"
  shows "r_Ordinal (st_rules s' a) = r_Ordinal (st_rules s a)"
proof (cases "FindPolicy rc ''forwarding''")
  case None
  with assms show ?thesis by (simp add: MergeRules_def)
next
  case (Some policy)
  with assms obtain iD jD where
    f: "fold_opt (merge_row (GetName rc) (p_Rules policy)) [0 ..< length (p_Rules policy)]
          (s, mm, [], []) = Some (s', mm', iD, jD)"
    by (auto simp: MergeRules_def Let_def split: option.splits)
  have "r_Ordinal (st_rules (fst (s', mm', iD, jD)) a) = r_Ordinal (st_rules s a)"
  proof (rule fold_opt_invariant
          [where Q = "\<lambda>t. r_Ordinal (st_rules (fst t) a) = r_Ordinal (st_rules s a)", OF _ f])
    fix x t t'
    assume "merge_row (GetName rc) (p_Rules policy) x t = Some t'"
      and "r_Ordinal (st_rules (fst t) a) = r_Ordinal (st_rules s a)"
    then show "r_Ordinal (st_rules (fst t') a) = r_Ordinal (st_rules s a)"
      using merge_row_ordinal [of "GetName rc" "p_Rules policy" x t t' a] by simp
  qed simp
  then show ?thesis by simp
qed

lemmas remove_defs = RemoveRules_def RemoveRuleAt_def new_Rule_def delete_at_def

lemma ex_remove:
  "RemoveRules ex_store (ex_policy [Some 0, Some 1]) [0]
   = Some (ex_removed_store, ex_policy [Some 1], True)"
  by (simp add: remove_defs ex_defs ex_removed_store_def)

lemma ex_remove_twice:
  "RemoveRules ex_store (ex_policy [Some 0, Some 0, Some 1]) [2]
   = Some (ex_twice_store, ex_policy [Some 0, Some 0], True)"
  by (simp add: remove_defs ex_defs ex_twice_store_def)

text \<open>
  Claim C3, as stated, fails for \<open>MergeRules\<close>: the app-root rule (ordinal 0) is folded
  into the forwarding rule and deleted, and the forwarding rule keeps ordinal 1 as the
  only rule of the policy. It also fails for \<open>RemoveRules\<close> on a rule list that holds
  one rule object twice: both entries show the ordinal written last.
\<close>

theorem C3_counterexample:
  "MergeRules (ex_rc [Some 0, Some 1]) ex_store Map.empty
     = Some (ex_rc [Some 1], ex_merged_store, ex_merged_map)
   \<and> FindPolicy (ex_rc [Some 1]) ''forwarding'' = Some (ex_policy [Some 1])
   \<and> rule_ordinals ex_merged_store (p_Rules (ex_policy [Some 1])) = [Some 1]
   \<and> \<not> ordinals_contiguous ex_merged_store (p_Rules (ex_policy [Some 1]))
   \<and> RemoveRules ex_store (ex_policy [Some 0, Some 0, Some 1]) [2]
     = Some (ex_twice_store, ex_policy [Some 0, Some 0], True)
   \<and> rule_ordinals ex_twice_store (p_Rules (ex_policy [Some 0, Some 0])) = [Some 1, Some 1]"
  using ex_merge ex_remove_twice
  by (simp add: rule_ordinals_def ordinals_contiguous_def FindPolicy_def ex_defs ex_twice_store_def)

text \<open>
  Claim C3 (amended): for a policy whose rule pointers are pairwise distinct,
  \<open>RemoveRules\<close> with a non-empty list of offsets leaves the remaining rules with the
  ordinals \<open>0 .. N-1\<close> in the order of the rule list; \<open>MergeRules\<close> deletes the
  mergees and reassigns no ordinal: every rule object keeps the ordinal it had.
\<close>

theorem C3_ordinals:
  "(RemoveRules s pol ruleOffsets = Some (s', pol', changed) \<and> ruleOffsets \<noteq> []
      \<and> distinct (p_Rules pol) \<longrightarrow> ordinals_contiguous s' (p_Rules pol'))
   \<and> (MergeRules rc s mm = Some (rc1, s1, mm1) \<longrightarrow>
        (\<forall>a. r_Ordinal (st_rules s1 a) = r_Ordinal (st_rules s a)))"
  using RemoveRules_contiguous [of s pol ruleOffsets s' pol' changed]
    MergeRules_ordinal [of rc s mm rc1 s1 mm1]
  by blast

theorem C3_ordinals_witness:
  "RemoveRules ex_store (ex_policy [Some 0, Some 1]) [0]
     = Some (ex_removed_store, ex_policy [Some 1], True)
   \<and> distinct (p_Rules (ex_policy [Some 0, Some 1]))
   \<and> ordinals_contiguous ex_removed_store (p_Rules (ex_policy [Some 1]))
   \<and> rule_ordinals ex_removed_store [Some 1] = [Some 0]
   \<and> MergeRules (ex_rc [Some 0, Some 1]) ex_store Map.empty
     = Some (ex_rc [Some 1], ex_merged_store, ex_merged_map)
   \<and> r_Ordinal (st_rules ex_merged_store 1) = r_Ordinal (st_rules ex_store 1)
   \<and> r_Ordinal (st_rules ex_merged_store 1) = 1"
proof -
  have d: "distinct (p_Rules (ex_policy [Some 0, Some 1]))" by (simp add: ex_policy_def)
  from C3_ordinals [of ex_store "ex_policy [Some 0, Some 1]" "[0]" ex_removed_store
      "ex_policy [Some 1]" True "ex_rc [Some 0, Some 1]" Map.empty "ex_rc [Some 1]"
      ex_merged_store ex_merged_map] ex_remove ex_merge d
  have "ordinals_contiguous ex_removed_store (p_Rules (ex_policy [Some 1]))
      \<and> r_Ordinal (st_rules ex_merged_store 1) = r_Ordinal (st_rules ex_store 1)"
    by simp
  moreover have "rule_ordinals ex_removed_store [Some 1] = [Some 0]"
    "r_Ordinal (st_rules ex_merged_store 1) = 1"
    by (simp_all add: rule_ordinals_def ex_removed_store_def ex_defs)
  ultimately show ?thesis using ex_remove ex_merge d by simp
qed

text \<open>
  Claim C10: when the merge records have no entry for the name of the configuration, or
  have one without the rule name, \<open>UnmergeRule\<close> returns false and leaves the
  configuration, the rule objects and the merge records as they are.
\<close>

theorem C10_unmerge_without_record:
  "mm (GetName rc) = None \<or> (\<exists>inner. mm (GetName rc) = Some inner \<and> inner ruleName = None)
   \<Longrightarrow> UnmergeRule rc ruleName s mm = Some (False, rc, s, mm)"
  by (auto simp: UnmergeRule_def)

theorem C10_unmerge_without_record_witness:
  "Map.empty (GetName (ex_rc [Some 0, Some 1])) = (None :: (string \<rightharpoonup> mergedRuleEntry) option)
   \<and> UnmergeRule (ex_rc [Some 0, Some 1]) ''vs_foo_svc1'' ex_store Map.empty
       = Some (False, ex_rc [Some 0, Some 1], ex_store, Map.empty)
   \<and> the (ex_merged_map (GetName (ex_rc [Some 1]))) ''vs_foo_svc2'' = None
   \<and> UnmergeRule (ex_rc [Some 1]) ''vs_foo_svc2'' ex_merged_store ex_merged_map
       = Some (False, ex_rc [Some 1], ex_merged_store, ex_merged_map)"
proof -
  have a: "ex_merged_map (GetName (ex_rc [Some 1])) \<noteq> None"
    "the (ex_merged_map (GetName (ex_rc [Some 1]))) ''vs_foo_svc2'' = None"
    by (simp_all add: ex_merged_map_def GetName_def ex_rc_def)
  then have b: "\<exists>inner. ex_merged_map (GetName (ex_rc [Some 1])) = Some inner
      \<and> inner ''vs_foo_svc2'' = None"
    by auto
  from C10_unmerge_without_record [of Map.empty "ex_rc [Some 0, Some 1]" "''vs_foo_svc1''" ex_store]
    C10_unmerge_without_record [of ex_merged_map "ex_rc [Some 1]" "''vs_foo_svc2''" ex_merged_store]
    a b
  show ?thesis by simp
qed

lemma find_split:
  "find P xs = Some x \<Longrightarrow> \<exists>pre post. xs = pre @ x # post \<and> (\<forall>q \<in> set pre. \<not> P q) \<and> P x"
proof (induction xs)
  case Nil
  then show ?case by simp
next
  case (Cons a xs)
  show ?case
  proof (cases "P a")
    case True
    with Cons.prems have "a = x" by simp
    with True have "a # xs = [] @ x # xs \<and> (\<forall>q \<in> set []. \<not> P q) \<and> P x" by simp
    then show ?thesis by blast
  next
    case False
    with Cons.prems have "find P xs = Some x" by simp
    from Cons.IH [OF this] obtain pre post where
      "xs = pre @ x # post" "\<forall>q \<in> set pre. \<not> P q" "P x" by blast
    with False have "a # xs = (a # pre) @ x # post \<and> (\<forall>q \<in> set (a # pre). \<not> P q) \<and> P x"
      by simp
    then show ?thesis by blast
  qed
qed



lemma go_copy_same_length: "length dst = length src \<Longrightarrow> go_copy dst src = src"
  by (simp add: go_copy_def)

lemma fresh_rules_length:
  "fresh_rules s rs = Some (ps, s') \<Longrightarrow> length ps = length rs"
proof (induction rs arbitrary: s ps s')
  case Nil
  then show ?case by simp
next
  case (Cons r rs)
  show ?case
  proof (cases r)
    case None
    with Cons.prems show ?thesis by simp
  next
    case (Some a)
    with Cons.prems obtain ps' where
      "fresh_rules (snd (new_Rule s (fresh_like (st_rules s a)))) rs = Some (ps', s')"
      and "ps = Some (fst (new_Rule s (fresh_like (st_rules s a)))) # ps'"
      by (auto split: option.splits)
    with Cons.IH show ?thesis by simp
  qed
qed

lemma copy_policy_shares_rules:
  assumes "copy_policy s pol = Some (pol', s')"
  shows "p_Rules pol' = p_Rules pol"
proof -
  from assms obtain fresh s1 where f: "fresh_rules s (p_Rules pol) = Some (fresh, s1)"
    and p: "p_Rules pol' = go_copy fresh (p_Rules pol)"
    unfolding copy_policy_def Let_def by (auto split: option.splits)
  from fresh_rules_length [OF f] p show ?thesis
    by (simp add: go_copy_same_length)
qed

lemmas copy_defs = updateOldConfig_def copyConfig_def copy_policy_def copy_rule_fields_def
  go_copy_def new_Rule_def fresh_like_def zero_ResourceConfig_def zero_Rule_def Let_def

lemma ex_update_old:
  "updateOldConfig ex_store ex_rs
   = Some (ex_rs\<lparr>oldRsMap := [(''vs1'', ex_rc [Some 0, Some 1])]\<rparr>, ex_copied_store)"
  by (simp add: copy_defs ex_defs ex_rs_def ex_copied_store_def ex_fresh_def fun_eq_iff)


lemma ex_merge_after_copy:
  "MergeRules (ex_rc [Some 0, Some 1]) ex_copied_store Map.empty
   = Some (ex_rc [Some 1], ex_copied_merged_store, ex_merged_map)"
  by (simp add: merge_defs ex_defs ex_markers ex_suffixes ex_copied_store_def
      ex_copied_merged_store_def)

text \<open>
  Claim C2 does not hold of the code. \<open>copyConfig\<close> allocates fresh rule objects for
  the snapshot and then overwrites the pointers to them with the pointers of the live
  policy (\<^verbatim>\<open>copy(rc.Policies[i].Rules, cfg.Policies[i].Rules)\<close>), so the snapshot lists
  the live rule objects. After \<open>updateOldConfig\<close>, \<open>MergeRules\<close> on the live
  configuration appends the redirect action to the forwarding rule, and the policy of
  the snapshot shows that rule with two actions instead of one.
\<close>

theorem C2_snapshot_shares_rule_objects:
  "updateOldConfig ex_store ex_rs
     = Some (ex_rs\<lparr>oldRsMap := [(''vs1'', ex_rc [Some 0, Some 1])]\<rparr>, ex_copied_store)
   \<and> rc_Policies (ex_rc [Some 0, Some 1]) = [ex_policy [Some 0, Some 1]]
   \<and> policy_view ex_copied_store (ex_policy [Some 0, Some 1]) = [Some ex_app, Some ex_fwd]
   \<and> MergeRules (ex_rc [Some 0, Some 1]) ex_copied_store Map.empty
       = Some (ex_rc [Some 1], ex_copied_merged_store, ex_merged_map)
   \<and> policy_view ex_copied_merged_store (ex_policy [Some 0, Some 1])
       = [Some ex_app, Some (ex_fwd\<lparr>r_Actions := [Some 0, Some 1]\<rparr>)]"
  using ex_update_old ex_merge_after_copy
  by (simp add: policy_view_def ex_rc_def ex_policy_def ex_store_def ex_copied_store_def
      ex_copied_merged_store_def)

section \<open>Properties of the data group flattening\<close>

lemmas flatten_defs = FlattenNamespaces_def deref_all_def flatten_group_def flatten_record_def
  build_records_def AddOrUpdateRecord_def sort_Search_def groupFlattenFuncMap_def
  flattenConflictWarn_def flattenConflictConcat_def Let_def
  PassthroughHostsDgName_def ReencryptHostsDgName_def EdgeHostsDgName_def
  ReencryptServerSslDgName_def EdgeServerSslDgName_def AbDeploymentDgName_def
  HttpsRedirectDgName_def ex_dg_def ex_dg_store_def

lemma search_loop_0_0: "search_loop f 0 0 = 0"
  by (simp add: search_loop_done)

lemma ex_flatten_warn:
  "FlattenNamespaces (ex_dg_store ''ssl_edge_servername_dg'') [(''ns1'', Some 0), (''ns2'', Some 1)]
   = Some (Some 2, (ex_dg_store ''ssl_edge_servername_dg'')
        \<lparr>dg_objs := (dg_objs (ex_dg_store ''ssl_edge_servername_dg''))
            (2 := ex_dg ''ssl_edge_servername_dg'' ''b/c''), dg_next := 3\<rparr>)"
  by (simp add: flatten_defs search_loop_0_0)

lemma ex_flatten_concat:
  "FlattenNamespaces (ex_dg_store ''https_redirect_dg'') [(''ns1'', Some 0), (''ns2'', Some 1)]
   = Some (Some 2, (ex_dg_store ''https_redirect_dg'')
        \<lparr>dg_objs := (dg_objs (ex_dg_store ''https_redirect_dg''))
            (2 := ex_dg ''https_redirect_dg'' ''a|b/c''), dg_next := 3\<rparr>)"
  by (simp add: flatten_defs search_loop_0_0)

lemma ex_flatten_unknown:
  "FlattenNamespaces (ex_dg_store ''other_dg'') [(''ns1'', Some 0), (''ns2'', Some 1)]
   = Some (Some 2, (ex_dg_store ''other_dg'')
        \<lparr>dg_objs := (dg_objs (ex_dg_store ''other_dg''))
            (2 := ex_dg ''other_dg'' ''b/c''), dg_next := 3\<rparr>)"
  by (simp add: flatten_defs search_loop_0_0)


lemma search_sorted_keys:
  fixes key :: "'a \<Rightarrow> 'k :: linorder" and k :: 'k and xs :: "'a list"
  assumes s: "sorted_wrt (<) (map key xs)"
  defines "i \<equiv> sort_Search (length xs) (\<lambda>i. key (xs ! i) \<ge> k)"
  shows "i \<le> length xs"
    and "\<forall>j < i. key (xs ! j) < k"
    and "\<forall>j. i \<le> j \<and> j < length xs \<longrightarrow> k \<le> key (xs ! j)"
proof -
  let ?f = "\<lambda>i. key (xs ! i) \<ge> k"
  have mono: "\<forall>a b. a \<le> b \<and> b < length xs \<and> ?f a \<longrightarrow> ?f b"
  proof (intro allI impI)
    fix a b assume h: "a \<le> b \<and> b < length xs \<and> k \<le> key (xs ! a)"
    then have "key (xs ! a) \<le> key (xs ! b)"
      using s by (cases "a = b") (auto simp: sorted_wrt_iff_nth_less less_imp_le)
    with h show "k \<le> key (xs ! b)" by (meson order_trans)
  qed
  have "search_loop ?f 0 (length xs) \<le> length xs
      \<and> (\<forall>j < search_loop ?f 0 (length xs). \<not> ?f j)
      \<and> (\<forall>j. search_loop ?f 0 (length xs) \<le> j \<and> j < length xs \<longrightarrow> ?f j)"
    by (rule search_loop_spec) (use mono in auto)
  then show "i \<le> length xs" and "\<forall>j < i. key (xs ! j) < k"
    and "\<forall>j. i \<le> j \<and> j < length xs \<longrightarrow> k \<le> key (xs ! j)"
    by (auto simp: i_def sort_Search_def not_le)
qed

lemma map_of_list_update:
  "distinct (map fst xs) \<Longrightarrow> i < length xs \<Longrightarrow> fst (xs ! i) = k \<Longrightarrow>
   map_of (xs[i := (k, v)]) = (map_of xs)(k \<mapsto> v)"
proof (induction xs arbitrary: i)
  case Nil
  then show ?case by simp
next
  case (Cons a xs)
  show ?case
  proof (cases i)
    case 0
    with Cons.prems show ?thesis by (cases a) auto
  next
    case (Suc j)
    with Cons.prems have j: "j < length xs" "fst (xs ! j) = k" and d: "distinct (map fst xs)"
      by auto
    from j have "k \<in> fst ` set xs" by (metis nth_mem image_eqI)
    with Cons.prems(1) have ne: "fst a \<noteq> k" by auto
    from Cons.IH [OF d j] Suc ne show ?thesis
      by (cases a) (auto simp: fun_upd_twist)
  qed
qed

lemma map_of_insert_at:
  "k \<notin> fst ` set xs \<Longrightarrow> map_of (take i xs @ (k, v) # drop i xs) = (map_of xs)(k \<mapsto> v)"
proof (rule ext)
  fix n
  assume k: "k \<notin> fst ` set xs"
  have x: "map_of xs = map_of (take i xs @ drop i xs)" by simp
  have kt: "map_of (take i xs) k = None"
    using k by (auto simp: map_of_eq_None_iff dest: in_set_takeD)
  show "map_of (take i xs @ (k, v) # drop i xs) n = ((map_of xs)(k \<mapsto> v)) n"
    unfolding x map_of_append using kt
    by (auto simp: map_add_def split: option.splits)
qed

lemma AddOrUpdateRecord_sorted:
  assumes s: "sorted_wrt (<) (map idr_Name (idg_Records idg))"
  shows "sorted_wrt (<) (map idr_Name (idg_Records (fst (AddOrUpdateRecord idg name data))))
       \<and> map_of (rec_pairs (idg_Records (fst (AddOrUpdateRecord idg name data))))
           = (map_of (rec_pairs (idg_Records idg)))(name \<mapsto> data)
       \<and> idg_Name (fst (AddOrUpdateRecord idg name data)) = idg_Name idg
       \<and> idg_Partition (fst (AddOrUpdateRecord idg name data)) = idg_Partition idg"
proof -
  define rs where "rs = idg_Records idg"
  define i where "i = sort_Search (length rs) (\<lambda>i. idr_Name (rs ! i) \<ge> name)"
  have s': "sorted_wrt (<) (map idr_Name rs)" using s by (simp add: rs_def)
  note sp = search_sorted_keys [OF s', of name, folded i_def]
  have d: "distinct (map fst (rec_pairs rs))"
    using s' by (simp add: rec_pairs_def comp_def strict_sorted_iff)
  show ?thesis
  proof (cases "i < length rs \<and> idr_Name (rs ! i) = name")
    case True
    then have fi: "fst (rec_pairs rs ! i) = name" "i < length (rec_pairs rs)"
      by (simp_all add: rec_pairs_def)
    show ?thesis
    proof (cases "idr_Data (rs ! i) \<noteq> data")
      case False
      with True have r: "AddOrUpdateRecord idg name data = (idg, False)"
        by (simp add: AddOrUpdateRecord_def Let_def rs_def [symmetric] i_def [symmetric])
      from True False have "rec_pairs rs ! i = (name, data)" by (simp add: rec_pairs_def)
      then have "(name, data) \<in> set (rec_pairs rs)" using fi(2) by (metis nth_mem)
      then have "map_of (rec_pairs rs) name = Some data" using d by simp
      then have "(map_of (rec_pairs rs))(name \<mapsto> data) = map_of (rec_pairs rs)"
        by (simp add: fun_upd_idem_iff)
      with r s show ?thesis by (simp add: rs_def)
    next
      case diff: True
      with True have r: "AddOrUpdateRecord idg name data
          = (idg\<lparr>idg_Records := rs[i := (rs ! i)\<lparr>idr_Data := data\<rparr>]\<rparr>, True)"
        by (simp add: AddOrUpdateRecord_def Let_def rs_def [symmetric] i_def [symmetric])
      have n: "map idr_Name (rs[i := (rs ! i)\<lparr>idr_Data := data\<rparr>]) = map idr_Name rs"
        by (simp add: map_update) (metis list_update_id nth_map True)
      have p: "rec_pairs (rs[i := (rs ! i)\<lparr>idr_Data := data\<rparr>]) = (rec_pairs rs)[i := (name, data)]"
        using True by (simp add: rec_pairs_def map_update)
      from map_of_list_update [OF d fi(2) fi(1), of data] r n p s' show ?thesis
        by (simp add: rs_def)
    qed
  next
    case False
    then have r: "AddOrUpdateRecord idg name data
        = (idg\<lparr>idg_Records := take i rs @ [\<lparr>idr_Name = name, idr_Data = data\<rparr>] @ drop i rs\<rparr>, True)"
      by (auto simp: AddOrUpdateRecord_def Let_def rs_def [symmetric] i_def [symmetric])
    have hi: "\<forall>j. i \<le> j \<and> j < length rs \<longrightarrow> name < idr_Name (rs ! j)"
    proof (intro allI impI)
      fix j assume j: "i \<le> j \<and> j < length rs"
      then have il: "i < length rs" by simp
      with False have ne: "idr_Name (rs ! i) \<noteq> name" by simp
      from sp(3) il have "name \<le> idr_Name (rs ! i)" by simp
      with ne have lt: "name < idr_Name (rs ! i)" by simp
      have "idr_Name (rs ! i) \<le> idr_Name (rs ! j)"
        using s' j by (cases "i = j") (auto simp: sorted_wrt_iff_nth_less less_imp_le)
      with lt show "name < idr_Name (rs ! j)" by simp
    qed
    have so: "sorted_wrt (<) (map idr_Name (take i rs) @ [name] @ map idr_Name (drop i rs))"
      by (rule insert_strict_sorted [OF s' sp(1) sp(2) hi])
    have nin: "name \<notin> fst ` set (rec_pairs rs)"
    proof
      assume "name \<in> fst ` set (rec_pairs rs)"
      then obtain j where j: "j < length rs" "idr_Name (rs ! j) = name"
        by (auto simp: rec_pairs_def in_set_conv_nth)
      show False
      proof (cases "j < i")
        case True
        with sp(2) j show False by auto
      next
        case False
        then have "i \<le> j \<and> j < length rs" using j by simp
        with hi have "name < idr_Name (rs ! j)" by blast
        with j show False by simp
      qed
    qed
    have p: "rec_pairs (take i rs @ [\<lparr>idr_Name = name, idr_Data = data\<rparr>] @ drop i rs)
        = take i (rec_pairs rs) @ (name, data) # drop i (rec_pairs rs)"
      by (simp add: rec_pairs_def take_map drop_map)
    from map_of_insert_at [OF nin, of i data] so r p show ?thesis
      by (simp add: rs_def)
  qed
qed

lemma build_records_sorted:
  assumes "sorted_wrt (<) (map idr_Name (idg_Records dg))"
  shows "sorted_wrt (<) (map idr_Name (idg_Records (build_records flatMap dg)))
       \<and> map_of (rec_pairs (idg_Records (build_records flatMap dg)))
           = map_of (rec_pairs (idg_Records dg)) ++ map_of (rev flatMap)
       \<and> idg_Name (build_records flatMap dg) = idg_Name dg
       \<and> idg_Partition (build_records flatMap dg) = idg_Partition dg"
  using assms
proof (induction flatMap arbitrary: dg)
  case Nil
  then show ?case by (simp add: build_records_def)
next
  case (Cons kv flatMap)
  obtain k v where kv: "kv = (k, v)" by (cases kv)
  let ?dg1 = "fst (AddOrUpdateRecord dg k v)"
  note a = AddOrUpdateRecord_sorted [OF Cons.prems, of k v]
  have b: "build_records (kv # flatMap) dg = build_records flatMap ?dg1"
    by (simp add: build_records_def kv)
  from a have s1: "sorted_wrt (<) (map idr_Name (idg_Records ?dg1))"
    and m1: "map_of (rec_pairs (idg_Records ?dg1)) = (map_of (rec_pairs (idg_Records dg)))(k \<mapsto> v)"
    and n1: "idg_Name ?dg1 = idg_Name dg" "idg_Partition ?dg1 = idg_Partition dg"
    by blast+
  note ih = Cons.IH [OF s1]
  have "sorted_wrt (<) (map idr_Name (idg_Records (build_records flatMap ?dg1)))
       \<and> map_of (rec_pairs (idg_Records (build_records flatMap ?dg1)))
           = (map_of (rec_pairs (idg_Records dg)))(k \<mapsto> v) ++ map_of (rev flatMap)
       \<and> idg_Name (build_records flatMap ?dg1) = idg_Name dg
       \<and> idg_Partition (build_records flatMap ?dg1) = idg_Partition dg"
    using ih unfolding m1 n1 by blast
  moreover have "(map_of (rec_pairs (idg_Records dg)))(k \<mapsto> v) ++ map_of (rev flatMap)
      = map_of (rec_pairs (idg_Records dg)) ++ map_of (rev (kv # flatMap))"
    by (rule ext) (simp add: kv map_add_def split: option.splits)
  ultimately show ?case unfolding b by simp
qed

lemma conflict_for_table:
  "conflict_for g = (case groupFlattenFuncMap g of Some f \<Rightarrow> f | None \<Rightarrow> flattenConflictWarn)"
  by (auto simp: conflict_for_def groupFlattenFuncMap_def fun_eq_iff flattenConflictWarn_def
      PassthroughHostsDgName_def ReencryptHostsDgName_def EdgeHostsDgName_def
      ReencryptServerSslDgName_def EdgeServerSslDgName_def AbDeploymentDgName_def
      HttpsRedirectDgName_def)

lemma flatten_record_value:
  "map_of (flatten_record g fm r) n = merged_value n (map_of fm n) (g, r)"
  by (auto simp: flatten_record_def merged_value_def conflict_for_table Let_def update_conv'
      split: option.splits)

lemma flatten_records_value:
  "map_of (foldl (flatten_record g) fm rs) n
   = foldl (merged_value n) (map_of fm n) (map (Pair g) rs)"
  by (induction rs arbitrary: fm) (simp_all add: flatten_record_value)

lemma flatten_groups_value:
  "map_of (snd (snd (foldl flatten_group (p, nm, fm) dgs))) n
   = foldl (merged_value n) (map_of fm n) (all_records dgs)"
proof (induction dgs arbitrary: p nm fm)
  case Nil
  then show ?case by (simp add: all_records_def)
next
  case (Cons dg dgs)
  show ?case
    using Cons.IH by (simp add: flatten_group_def flatten_records_value all_records_def)
qed

lemma merged_value_Some:
  "foldl (merged_value n) (Some c) grs
   = Some (foldl (\<lambda>cur (dgName, data).
                    if cur \<noteq> data then conflict_for dgName n cur data else cur)
             c (map (\<lambda>(g, r). (g, idr_Data r)) (filter (\<lambda>(g, r). idr_Name r = n) grs)))"
  by (induction grs arbitrary: c) (auto simp: merged_value_def)

lemma merged_value_None:
  "foldl (merged_value n) None grs
   = resolved n (map (\<lambda>(g, r). (g, idr_Data r)) (filter (\<lambda>(g, r). idr_Name r = n) grs))"
proof (induction grs)
  case Nil
  then show ?case by (simp add: resolved_def)
next
  case (Cons gr grs)
  obtain g r where gr: "gr = (g, r)" by (cases gr)
  show ?case
  proof (cases "idr_Name r = n")
    case True
    then show ?thesis
      by (simp add: gr merged_value_def merged_value_Some [unfolded merged_value_def] resolved_def)
  next
    case False
    with Cons.IH show ?thesis by (simp add: gr merged_value_def)
  qed
qed

lemma supplied_all_records:
  "map (\<lambda>(g, r). (g, idr_Data r)) (filter (\<lambda>(g, r). idr_Name r = n) (all_records dgs))
   = supplied dgs n"
  by (induction dgs) (simp_all add: all_records_def supplied_def filter_map comp_def)

lemma flatten_groups_resolved:
  "map_of (snd (snd (foldl flatten_group ([], [], []) dgs))) n = resolved n (supplied dgs n)"
  by (simp add: flatten_groups_value merged_value_None supplied_all_records)

lemma flatten_record_distinct:
  "distinct (map fst fm) \<Longrightarrow> distinct (map fst (flatten_record g fm r))"
  by (auto simp: flatten_record_def Let_def distinct_update split: option.splits)

lemma flatten_records_distinct:
  "distinct (map fst fm) \<Longrightarrow> distinct (map fst (foldl (flatten_record g) fm rs))"
  by (induction rs arbitrary: fm) (simp_all add: flatten_record_distinct)

lemma flatten_groups_distinct:
  "distinct (map fst fm) \<Longrightarrow> distinct (map fst (snd (snd (foldl flatten_group (p, nm, fm) dgs))))"
  by (induction dgs arbitrary: p nm fm) (simp_all add: flatten_group_def flatten_records_distinct)

lemma map_of_rev_distinct: "distinct (map fst xs) \<Longrightarrow> map_of (rev xs) = map_of xs"
  by (subst map_of_inject_set) (simp_all add: rev_map [symmetric])

lemma build_records_lookup:
  assumes d: "distinct (map fst flatMap)"
  shows "sorted_wrt (<) (map idr_Name (idg_Records (build_records flatMap
            \<lparr>idg_Name = name, idg_Partition = part, idg_Records = []\<rparr>)))
       \<and> map_of (rec_pairs (idg_Records (build_records flatMap
            \<lparr>idg_Name = name, idg_Partition = part, idg_Records = []\<rparr>))) = map_of flatMap
       \<and> idg_Name (build_records flatMap
            \<lparr>idg_Name = name, idg_Partition = part, idg_Records = []\<rparr>) = name
       \<and> idg_Partition (build_records flatMap
            \<lparr>idg_Name = name, idg_Partition = part, idg_Records = []\<rparr>) = part"
  using build_records_sorted [of "\<lparr>idg_Name = name, idg_Partition = part, idg_Records = []\<rparr>" flatMap]
    map_of_rev_distinct [OF d]
  by (simp add: rec_pairs_def)

lemma rec_pairs_inj: "rec_pairs xs = rec_pairs ys \<Longrightarrow> xs = ys"
proof (induction xs arbitrary: ys)
  case Nil
  then show ?case by (simp add: rec_pairs_def)
next
  case (Cons x xs)
  then obtain y ys' where ys: "ys = y # ys'" by (cases ys) (auto simp: rec_pairs_def)
  with Cons.prems have "idr_Name x = idr_Name y" "idr_Data x = idr_Data y"
    and "rec_pairs xs = rec_pairs ys'"
    by (simp_all add: rec_pairs_def)
  with Cons.IH ys show ?case by simp
qed

lemma sorted_records_unique:
  assumes "sorted_wrt (<) (map idr_Name xs)" "sorted_wrt (<) (map idr_Name ys)"
    and "map_of (rec_pairs xs) = map_of (rec_pairs ys)"
  shows "xs = ys"
proof -
  have key: "\<And>zs. map fst (rec_pairs zs) = map idr_Name zs"
    by (simp add: rec_pairs_def comp_def)
  have st: "\<And>zs :: InternalDataGroupRecord list.
      sorted_wrt (<) (map idr_Name zs) \<Longrightarrow> sorted_wrt (<) (rec_pairs zs)"
  proof -
    fix zs :: "InternalDataGroupRecord list"
    assume "sorted_wrt (<) (map idr_Name zs)"
    then have "sorted_wrt (\<lambda>a b. fst a < fst b) (rec_pairs zs)"
      by (simp add: key [symmetric] sorted_wrt_map)
    then show "sorted_wrt (<) (rec_pairs zs)"
      by (rule sorted_wrt_mono_rel [rotated]) (auto simp: less_prod_def')
  qed
  have dx: "distinct (map fst (rec_pairs xs))" "distinct (map fst (rec_pairs ys))"
    using assms(1,2) by (simp_all add: key strict_sorted_iff)
  with assms(3) have "set (rec_pairs xs) = set (rec_pairs ys)"
    by (simp add: map_of_inject_set)
  with st [OF assms(1)] st [OF assms(2)] have "rec_pairs xs = rec_pairs ys"
    by (auto simp: strict_sorted_iff intro: sorted_distinct_set_unique)
  then show ?thesis by (rule rec_pairs_inj)
qed

lemma build_records_any_order:
  assumes "distinct (map fst xs)" "distinct (map fst ys)" "set xs = set ys"
  shows "build_records xs \<lparr>idg_Name = name, idg_Partition = part, idg_Records = []\<rparr>
       = build_records ys \<lparr>idg_Name = name, idg_Partition = part, idg_Records = []\<rparr>"
proof -
  note a = build_records_lookup [OF assms(1), of name part]
  note b = build_records_lookup [OF assms(2), of name part]
  have m: "map_of xs = map_of ys" using assms by (simp add: map_of_inject_set)
  have "idg_Records (build_records xs \<lparr>idg_Name = name, idg_Partition = part, idg_Records = []\<rparr>)
      = idg_Records (build_records ys \<lparr>idg_Name = name, idg_Partition = part, idg_Records = []\<rparr>)"
    by (rule sorted_records_unique) (use a b m in simp_all)
  with a b show ?thesis by (intro InternalDataGroup.equality) simp_all
qed

text \<open>
  Claim C8: for the empty map \<open>FlattenNamespaces\<close> returns nil; for a map with one entry
  it returns the pointer of that entry and changes nothing; for two or more entries it
  returns a new data group whose records, sorted by name, hold for every record name the
  data that the namespaces supply for it, merged in the order of the iteration: the first
  data is kept, and later data that differs is resolved by the conflict function that
  the table gives for the name of its data group, and by \<open>flattenConflictWarn\<close>, which
  keeps the old value, for a name that the table does not have.
\<close>

theorem C8_flatten_namespaces:
  "FlattenNamespaces st [] = Some (None, st)
   \<and> FlattenNamespaces st [(ns, p)] = Some (p, st)
   \<and> (2 \<le> length dgnm \<and> list_all (\<lambda>(ns, p). p \<noteq> None) dgnm \<longrightarrow>
        (\<exists>newDg. FlattenNamespaces st dgnm
             = Some (Some (dg_next st),
                     st\<lparr>dg_objs := (dg_objs st)(dg_next st := newDg), dg_next := Suc (dg_next st)\<rparr>)
           \<and> sorted_wrt (<) (map idr_Name (idg_Records newDg))
           \<and> (\<forall>n. map_of (rec_pairs (idg_Records newDg)) n
                    = resolved n (supplied (map (\<lambda>(ns, p). dg_objs st (the p)) dgnm) n))))
   \<and> conflict_for g = (case groupFlattenFuncMap g of Some f \<Rightarrow> f | None \<Rightarrow> flattenConflictWarn)
   \<and> flattenConflictWarn key oldVal newVal = oldVal"
proof -
  have a: "FlattenNamespaces st [] = Some (None, st)"
    by (simp add: FlattenNamespaces_def)
  have b: "FlattenNamespaces st [(ns, p)] = Some (p, st)"
    by (simp add: FlattenNamespaces_def)
  have c: "2 \<le> length dgnm \<and> list_all (\<lambda>(ns, p). p \<noteq> None) dgnm \<longrightarrow>
        (\<exists>newDg. FlattenNamespaces st dgnm
             = Some (Some (dg_next st),
                     st\<lparr>dg_objs := (dg_objs st)(dg_next st := newDg), dg_next := Suc (dg_next st)\<rparr>)
           \<and> sorted_wrt (<) (map idr_Name (idg_Records newDg))
           \<and> (\<forall>n. map_of (rec_pairs (idg_Records newDg)) n
                    = resolved n (supplied (map (\<lambda>(ns, p). dg_objs st (the p)) dgnm) n)))"
  proof
    assume h: "2 \<le> length dgnm \<and> list_all (\<lambda>(ns, p). p \<noteq> None) dgnm"
    define dgs where "dgs = map (\<lambda>(ns, p). dg_objs st (the p)) dgnm"
    obtain part name fm where f: "foldl flatten_group ([], [], []) dgs = (part, name, fm)"
      by (metis prod_cases3)
    define newDg where
      "newDg = build_records fm \<lparr>idg_Name = name, idg_Partition = part, idg_Records = []\<rparr>"
    have d: "distinct (map fst fm)"
      using flatten_groups_distinct [of "[]" "[]" "[]" dgs] f by simp
    have v: "\<And>n. map_of fm n = resolved n (supplied dgs n)"
      using flatten_groups_resolved [of dgs] f by simp
    have r: "FlattenNamespaces st dgnm
        = Some (Some (dg_next st),
                st\<lparr>dg_objs := (dg_objs st)(dg_next st := newDg), dg_next := Suc (dg_next st)\<rparr>)"
    proof -
      from h have l: "length dgnm \<noteq> 0" "length dgnm \<noteq> 1" by auto
      from h have da: "deref_all dgnm st = Some dgs"
        by (simp add: deref_all_def dgs_def)
      show ?thesis
        unfolding FlattenNamespaces_def using l da f by (simp add: newDg_def Let_def)
    qed
    from build_records_lookup [OF d, of name part] v r
    show "\<exists>newDg. FlattenNamespaces st dgnm
             = Some (Some (dg_next st),
                     st\<lparr>dg_objs := (dg_objs st)(dg_next st := newDg), dg_next := Suc (dg_next st)\<rparr>)
           \<and> sorted_wrt (<) (map idr_Name (idg_Records newDg))
           \<and> (\<forall>n. map_of (rec_pairs (idg_Records newDg)) n
                    = resolved n (supplied (map (\<lambda>(ns, p). dg_objs st (the p)) dgnm) n))"
      unfolding newDg_def [symmetric] dgs_def [symmetric] by auto
  qed
  have e: "flattenConflictWarn key oldVal newVal = oldVal"
    by (simp add: flattenConflictWarn_def)
  from a b c conflict_for_table [of g] e show ?thesis by blast
qed

theorem C8_flatten_namespaces_witness:
  "FlattenNamespaces (ex_dg_store ''ssl_edge_servername_dg'') [(''ns1'', Some 0)]
     = Some (Some 0, ex_dg_store ''ssl_edge_servername_dg'')
   \<and> FlattenNamespaces (ex_dg_store ''ssl_edge_servername_dg'') [(''ns1'', Some 0), (''ns2'', Some 1)]
     = Some (Some 2, (ex_dg_store ''ssl_edge_servername_dg'')
          \<lparr>dg_objs := (dg_objs (ex_dg_store ''ssl_edge_servername_dg''))
              (2 := ex_dg ''ssl_edge_servername_dg'' ''b/c''), dg_next := 3\<rparr>)
   \<and> resolved ''x'' (supplied [ex_dg ''ssl_edge_servername_dg'' ''b/c'',
                                ex_dg ''ssl_edge_servername_dg'' ''a''] ''x'') = Some ''b/c''
   \<and> FlattenNamespaces (ex_dg_store ''https_redirect_dg'') [(''ns1'', Some 0), (''ns2'', Some 1)]
     = Some (Some 2, (ex_dg_store ''https_redirect_dg'')
          \<lparr>dg_objs := (dg_objs (ex_dg_store ''https_redirect_dg''))
              (2 := ex_dg ''https_redirect_dg'' ''a|b/c''), dg_next := 3\<rparr>)
   \<and> groupFlattenFuncMap ''other_dg'' = None
   \<and> conflict_for ''other_dg'' ''x'' ''b/c'' ''a'' = ''b/c''"
proof -
  let ?st = "ex_dg_store ''ssl_edge_servername_dg''"
  let ?m = "[(''ns1'', Some 0), (''ns2'', Some (1::nat))]"
  have h: "2 \<le> length ?m \<and> list_all (\<lambda>(ns, p). p \<noteq> None) ?m" by simp
  from C8_flatten_namespaces [of ?st "''ns1''" "Some 0" ?m "''other_dg''" "''x''" "''b/c''" "''a''"] h
  obtain newDg where
    one: "FlattenNamespaces ?st [(''ns1'', Some 0)] = Some (Some 0, ?st)"
    and two: "FlattenNamespaces ?st ?m
       = Some (Some (dg_next ?st),
               ?st\<lparr>dg_objs := (dg_objs ?st)(dg_next ?st := newDg), dg_next := Suc (dg_next ?st)\<rparr>)"
    and cf: "conflict_for ''other_dg''
       = (case groupFlattenFuncMap ''other_dg'' of Some f \<Rightarrow> f | None \<Rightarrow> flattenConflictWarn)"
    and w: "flattenConflictWarn ''x'' ''b/c'' ''a'' = ''b/c''"
    by blast
  have n: "groupFlattenFuncMap ''other_dg'' = None"
    by (simp add: groupFlattenFuncMap_def PassthroughHostsDgName_def ReencryptHostsDgName_def
        EdgeHostsDgName_def ReencryptServerSslDgName_def EdgeServerSslDgName_def
        AbDeploymentDgName_def HttpsRedirectDgName_def)
  from cf n w have c: "conflict_for ''other_dg'' ''x'' ''b/c'' ''a'' = ''b/c''" by simp
  have r: "resolved ''x'' (supplied [ex_dg ''ssl_edge_servername_dg'' ''b/c'',
                                ex_dg ''ssl_edge_servername_dg'' ''a''] ''x'') = Some ''b/c''"
    by (simp add: resolved_def supplied_def ex_dg_def conflict_for_def EdgeHostsDgName_def)
  from one ex_flatten_warn ex_flatten_concat r n c show ?thesis by simp
qed

section \<open>Merge followed by unmerge\<close>






lemma delete_indices_Nil: "delete_indices rules [] = rules"
  by simp





























section \<open>Properties of the copy of a policy\<close>

lemma split3:
  assumes "a + n \<le> length xs"
  obtains A X B where "xs = A @ X @ B" "length A = a" "length X = n"
proof
  show "xs = take a xs @ take n (drop a xs) @ drop n (drop a xs)"
    by (simp only: append_take_drop_id)
  show "length (take a xs) = a" using assms by simp
  show "length (take n (drop a xs)) = n" using assms by simp
qed

lemma write_window:
  assumes len: "a + n \<le> length arr" and fit: "k + length ys \<le> n"
  shows "take n (drop a (take (a + k) arr @ ys @ drop (a + k + length ys) arr))
       = take k (take n (drop a arr)) @ ys @ drop (k + length ys) (take n (drop a arr))"
proof -
  from len obtain A X B where arr: "arr = A @ X @ B" and la: "length A = a" and lx: "length X = n"
    by (rule split3)
  from fit lx have "k + length ys \<le> length X" by simp
  then obtain X1 X2 X3 where x: "X = X1 @ X2 @ X3" and l1: "length X1 = k"
    and l2: "length X2 = length ys"
    by (rule split3)
  have t: "take (a + k) arr = A @ X1" using la l1 by (simp add: arr x)
  have d: "drop (a + k + length ys) arr = X3 @ B"
  proof -
    have "arr = (A @ X1 @ X2) @ (X3 @ B)" by (simp add: arr x)
    moreover have "length (A @ X1 @ X2) = a + k + length ys" using la l1 l2 by simp
    ultimately show ?thesis by (metis append_eq_conv_conj)
  qed
  have w: "take n (drop a arr) = X" using la lx by (simp add: arr)
  have n: "n = length (X1 @ ys @ X3)" using lx l2 by (simp add: x)
  have "take n (drop a (A @ X1 @ ys @ X3 @ B)) = X1 @ ys @ X3"
    using la by (simp add: n)
  moreover have "take k X = X1" "drop (k + length ys) X = X3"
    using l1 l2 by (simp_all add: x)
  ultimately show ?thesis by (simp add: t d w)
qed

lemma copy_into_elems:
  assumes ok: "slice_ok h sl" and fit: "k + length ys \<le> sl_len sl"
  shows "slice_elems (copy_into h sl k ys) sl
       = take k (slice_elems h sl) @ ys @ drop (k + length ys) (slice_elems h sl)"
proof -
  from ok have len: "sl_off sl + sl_len sl \<le> length (hp_arrays h (sl_array sl))"
    by (simp add: slice_ok_def)
  from write_window [OF len fit] show ?thesis
    by (simp add: slice_elems_def copy_into_def)
qed

lemma copy_into_ok:
  assumes ok: "slice_ok h sl" and fit: "k + length ys \<le> sl_len sl"
  shows "slice_ok (copy_into h sl k ys) sl"
  using assms by (simp add: slice_ok_def copy_into_def)

lemma slice_elems_length: "slice_ok h sl \<Longrightarrow> length (slice_elems h sl) = sl_len sl"
  by (simp add: slice_ok_def slice_elems_def)

lemma slice_elems_frame [simp]:
  "slice_elems (h\<lparr>hp_store := st\<rparr>) sl = slice_elems h sl"
  "slice_elems (h\<lparr>hp_vars := v\<rparr>) sl = slice_elems h sl"
  "slice_elems (h\<lparr>hp_next_var := n\<rparr>) sl = slice_elems h sl"
  by (simp_all add: slice_elems_def)

lemma slice_ok_frame [simp]:
  "slice_ok (h\<lparr>hp_store := st\<rparr>) sl = slice_ok h sl"
  "slice_ok (h\<lparr>hp_vars := v\<rparr>) sl = slice_ok h sl"
  "slice_ok (h\<lparr>hp_next_var := n\<rparr>) sl = slice_ok h sl"
  by (simp_all add: slice_ok_def)

lemma copy_into_fields [simp]:
  "hp_store (copy_into h sl k ys) = hp_store h"
  "hp_vars (copy_into h sl k ys) = hp_vars h"
  "hp_next_var (copy_into h sl k ys) = hp_next_var h"
  by (simp_all add: copy_into_def)

lemma slice_elems_shorter:
  "slice_elems h (sl\<lparr>sl_len := l\<rparr>) = take l (drop (sl_off sl) (hp_arrays h (sl_array sl)))"
  by (simp add: slice_elems_def)

lemma slice_elems_prefix:
  "l \<le> sl_len sl \<Longrightarrow> slice_elems h (sl\<lparr>sl_len := l\<rparr>) = take l (slice_elems h sl)"
  by (simp add: slice_elems_def min_def)

lemma RemoveRuleAt_h_elems:
  assumes c: "hp_vars h p = pol" and ok: "slice_ok h (ph_Rules pol)"
    and o: "0 \<le> offset" "offset < int (sl_len (ph_Rules pol))"
  shows "\<exists>h'. RemoveRuleAt_h h p offset = Some (h', True)
     \<and> slice_elems h' (ph_Rules pol)
         = delete_at (nat offset) (slice_elems h (ph_Rules pol)) @ [Some (st_next (hp_store h))]
     \<and> slice_elems h' (ph_Rules (hp_vars h' p))
         = delete_at (nat offset) (slice_elems h (ph_Rules pol))
     \<and> slice_ok h' (ph_Rules pol)
     \<and> hp_store h' = snd (new_Rule (hp_store h) zero_Rule)
     \<and> hp_vars h' = (hp_vars h)(p := pol\<lparr>ph_Rules := (ph_Rules pol)\<lparr>sl_len := sl_len (ph_Rules pol) - 1\<rparr>\<rparr>)
     \<and> hp_next_var h' = hp_next_var h"
proof -
  define sl where "sl = ph_Rules pol"
  define n where "n = sl_len sl"
  define k where "k = nat offset"
  define xs where "xs = slice_elems h sl"
  define a where "a = st_next (hp_store h)"
  define h1 where "h1 = copy_into h sl k (drop (Suc k) xs)"
  define h2 where
    "h2 = copy_into (h1\<lparr>hp_store := snd (new_Rule (hp_store h1) zero_Rule)\<rparr>) sl (n - 1) [Some a]"
  define h3 where
    "h3 = h2\<lparr>hp_vars := (hp_vars h2)(p := pol\<lparr>ph_Rules := sl\<lparr>sl_len := n - 1\<rparr>\<rparr>)\<rparr>"
  have ok': "slice_ok h sl" using ok by (simp add: sl_def)
  have kn: "k < n" using o by (simp add: k_def n_def sl_def)
  have lx: "length xs = n" using ok' by (simp add: xs_def n_def slice_elems_length)
  have fit1: "k + length (drop (Suc k) xs) \<le> sl_len sl"
    using kn lx by (simp add: n_def)
  have e1: "slice_elems h1 sl = take k xs @ drop (Suc k) xs @ drop (n - 1) xs"
  proof -
    have "k + length (drop (Suc k) xs) = n - 1" using kn lx by simp
    with copy_into_elems [OF ok' fit1] show ?thesis by (simp add: h1_def xs_def)
  qed
  have ok1: "slice_ok h1 sl" unfolding h1_def by (rule copy_into_ok [OF ok' fit1])
  let ?h1' = "h1\<lparr>hp_store := snd (new_Rule (hp_store h1) zero_Rule)\<rparr>"
  have ok1': "slice_ok ?h1' sl" using ok1 by simp
  have fit2: "(n - 1) + length [Some a] \<le> sl_len sl" using kn by (simp add: n_def)
  have e2: "slice_elems h2 sl = delete_at k xs @ [Some a]"
  proof -
    have "slice_elems h2 sl
        = take (n - 1) (slice_elems ?h1' sl) @ [Some a] @ drop (n - 1 + length [Some a]) (slice_elems ?h1' sl)"
      unfolding h2_def by (rule copy_into_elems [OF ok1' fit2])
    moreover have "length (take k xs @ drop (Suc k) xs) = n - 1" using kn lx by simp
    moreover have "length (slice_elems h1 sl) = n" using ok1 by (simp add: slice_elems_length n_def)
    ultimately show ?thesis using kn by (simp add: e1 delete_at_def)
  qed
  have ok2: "slice_ok h2 sl" unfolding h2_def by (rule copy_into_ok [OF ok1' fit2])
  have st: "hp_store h1 = hp_store h" by (simp add: h1_def)
  have run: "RemoveRuleAt_h h p offset = Some (h3, True)"
    unfolding RemoveRuleAt_h_def Let_def
    using o c
    by (simp add: h3_def h2_def h1_def sl_def [symmetric] n_def [symmetric] k_def [symmetric]
        xs_def [symmetric] a_def new_Rule_def)
  have e3: "slice_elems h3 sl = delete_at k xs @ [Some a]" using e2 by (simp add: h3_def)
  have v3: "hp_vars h3 = (hp_vars h)(p := pol\<lparr>ph_Rules := sl\<lparr>sl_len := n - 1\<rparr>\<rparr>)"
    by (simp add: h3_def h2_def h1_def)
  have own: "slice_elems h3 (ph_Rules (hp_vars h3 p)) = delete_at k xs"
  proof -
    have "slice_elems h3 (sl\<lparr>sl_len := n - 1\<rparr>) = take (n - 1) (slice_elems h3 sl)"
      by (rule slice_elems_prefix) (simp add: n_def)
    moreover have "length (delete_at k xs) = n - 1" using kn lx by (simp add: delete_at_def)
    ultimately show ?thesis by (simp add: v3 e3)
  qed
  note e3
  moreover note own
  moreover have "slice_ok h3 sl" using ok2 by (simp add: h3_def)
  moreover have "hp_store h3 = snd (new_Rule (hp_store h) zero_Rule)"
    by (simp add: h3_def h2_def st)
  moreover note v3
  moreover have "hp_next_var h3 = hp_next_var h" by (simp add: h3_def h2_def h1_def)
  ultimately show ?thesis
    using run unfolding sl_def n_def k_def xs_def a_def by blast
qed

lemma fix_ordinals_total: "None \<notin> set rs \<Longrightarrow> \<exists>s'. fix_ordinals s rs i = Some s'"
  by (induction s rs i rule: fix_ordinals.induct) simp_all

lemma set_delete_at: "set (delete_at k xs) \<subseteq> set xs"
  using set_take_subset [of k xs] set_drop_subset [of "Suc k" xs]
  by (auto simp: delete_at_def)

lemma length_delete_at: "k < length xs \<Longrightarrow> length (delete_at k xs) = length xs - 1"
  by (simp add: delete_at_def)

lemma RemoveRules_h_single:
  assumes c: "hp_vars h p = pol" and ok: "slice_ok h (ph_Rules pol)"
    and o: "0 \<le> offset" "offset < int (sl_len (ph_Rules pol))"
    and d: "distinct (slice_elems h (ph_Rules pol))"
    and nn: "None \<notin> set (slice_elems h (ph_Rules pol))"
    and fr: "Some (st_next (hp_store h)) \<notin> set (slice_elems h (ph_Rules pol))"
  shows "\<exists>h'. RemoveRules_h h p [offset] = Some (h', True)
     \<and> slice_elems h' (ph_Rules pol)
         = delete_at (nat offset) (slice_elems h (ph_Rules pol)) @ [Some (st_next (hp_store h))]
     \<and> st_rules (hp_store h') (st_next (hp_store h)) = zero_Rule
     \<and> rule_ordinals (hp_store h') (delete_at (nat offset) (slice_elems h (ph_Rules pol)))
         = map (\<lambda>i. Some (int i)) [0 ..< sl_len (ph_Rules pol) - 1]
     \<and> slice_elems h' (ph_Rules (hp_vars h' p))
         = delete_at (nat offset) (slice_elems h (ph_Rules pol))"
proof -
  define sl where "sl = ph_Rules pol"
  define n where "n = sl_len sl"
  define xs where "xs = slice_elems h sl"
  define a where "a = st_next (hp_store h)"
  define ys where "ys = delete_at (nat offset) xs"
  from RemoveRuleAt_h_elems [OF c ok o] obtain h1 where
    run: "RemoveRuleAt_h h p offset = Some (h1, True)"
    and e1: "slice_elems h1 sl = ys @ [Some a]"
    and st1: "hp_store h1 = snd (new_Rule (hp_store h) zero_Rule)"
    and v1: "hp_vars h1 = (hp_vars h)(p := pol\<lparr>ph_Rules := sl\<lparr>sl_len := n - 1\<rparr>\<rparr>)"
    unfolding sl_def n_def xs_def a_def ys_def by blast
  have lx: "length xs = n" using ok by (simp add: xs_def n_def sl_def slice_elems_length)
  have kn: "nat offset < n" using o by (simp add: n_def sl_def)
  have ly: "length ys = n - 1" using kn lx by (simp add: ys_def length_delete_at)
  have own: "slice_elems h1 (ph_Rules (hp_vars h1 p)) = ys"
  proof -
    have "slice_elems h1 (sl\<lparr>sl_len := n - 1\<rparr>) = take (n - 1) (slice_elems h1 sl)"
      by (rule slice_elems_prefix) (simp add: n_def)
    then show ?thesis using ly by (simp add: v1 e1)
  qed
  have sub: "set ys \<subseteq> set xs" unfolding ys_def by (rule set_delete_at)
  have nny: "None \<notin> set ys" using sub nn by (auto simp: xs_def sl_def)
  have dy: "distinct ys" using d unfolding ys_def xs_def sl_def by (rule distinct_delete_at)
  have ay: "Some a \<notin> set ys" using sub fr by (auto simp: xs_def sl_def a_def)
  from fix_ordinals_total [OF nny, of "hp_store h1" 0] obtain st' where
    fo: "fix_ordinals (hp_store h1) ys 0 = Some st'" by blast
  have ords: "rule_ordinals st' ys = map (\<lambda>i. Some (int i)) [0 ..< n - 1]"
    using fix_ordinals_contiguous [OF fo dy] by (simp add: ly)
  have za: "st_rules st' a = zero_Rule"
    using fix_ordinals_other [OF fo ay] by (simp add: st1 new_Rule_def a_def)
  have res: "RemoveRules_h h p [offset] = Some (h1\<lparr>hp_store := st'\<rparr>, True)"
    by (simp add: RemoveRules_h_def run own fo)
  have "slice_elems (h1\<lparr>hp_store := st'\<rparr>) sl = ys @ [Some a]" using e1 by simp
  moreover have "st_rules (hp_store (h1\<lparr>hp_store := st'\<rparr>)) a = zero_Rule" using za by simp
  moreover have "rule_ordinals (hp_store (h1\<lparr>hp_store := st'\<rparr>)) ys
      = map (\<lambda>i. Some (int i)) [0 ..< n - 1]" using ords by simp
  moreover have "slice_elems (h1\<lparr>hp_store := st'\<rparr>) (ph_Rules (hp_vars (h1\<lparr>hp_store := st'\<rparr>) p)) = ys"
    using own by simp
  ultimately show ?thesis
    using res unfolding sl_def n_def xs_def a_def ys_def by blast
qed

lemma set_policy_in_h_replaces:
  "(\<forall>q \<in> set pre. ph_Name q \<noteq> ph_Name policy \<or> ph_Partition q \<noteq> ph_Partition policy) \<Longrightarrow>
   ph_Name pol = ph_Name policy \<Longrightarrow> ph_Partition pol = ph_Partition policy \<Longrightarrow>
   set_policy_in_h (pre @ pol # post) policy = pre @ policy # post"
  by (induction pre) auto

lemma SetPolicy_h_policies:
  "rh_Policies (SetPolicy_h rc policy) = set_policy_in_h (rh_Policies rc) policy"
  by (simp add: SetPolicy_h_def Let_def)

lemma FindPolicy_h_none:
  "fst (FindPolicy_h h rc controlType) = None
   \<longleftrightarrow> (\<forall>pol \<in> set (rh_Policies rc). controlType \<notin> set (ph_Controls pol))"
proof -
  let ?P = "\<lambda>pol. list_ex (\<lambda>cType. cType = controlType) (ph_Controls pol)"
  have "fst (FindPolicy_h h rc controlType) = None \<longleftrightarrow> find ?P (rh_Policies rc) = None"
    by (simp add: FindPolicy_h_def split: option.splits)
  then show ?thesis by (auto simp: find_None_iff list_ex_iff)
qed

lemma FindPolicy_h_unchanged:
  "fst (FindPolicy_h h rc controlType) = None \<Longrightarrow> snd (FindPolicy_h h rc controlType) = h"
  by (auto simp: FindPolicy_h_def split: option.splits)

lemma FindPolicy_h_some:
  assumes "FindPolicy_h h rc controlType = (Some p, h')"
  shows "\<exists>pre pol post. rh_Policies rc = pre @ pol # post
           \<and> (\<forall>q \<in> set pre. controlType \<notin> set (ph_Controls q))
           \<and> controlType \<in> set (ph_Controls pol)
           \<and> p = hp_next_var h
           \<and> h' = h\<lparr>hp_vars := (hp_vars h)(p := pol), hp_next_var := Suc p\<rparr>"
proof -
  let ?P = "\<lambda>pol. list_ex (\<lambda>cType. cType = controlType) (ph_Controls pol)"
  from assms obtain pol where
    fd: "find ?P (rh_Policies rc) = Some pol" and p: "p = hp_next_var h"
    and h': "h' = h\<lparr>hp_vars := (hp_vars h)(p := pol), hp_next_var := Suc p\<rparr>"
    by (auto simp: FindPolicy_h_def split: option.splits)
  from find_split [OF fd] obtain pre post where
    "rh_Policies rc = pre @ pol # post" "\<forall>q \<in> set pre. \<not> ?P q" "?P pol" by blast
  with p h' show ?thesis by (auto simp: list_ex_iff)
qed

lemmas heap_defs = FindPolicy_h_def RemoveRules_h_def RemoveRuleAt_h_def copy_into_def
  slice_elems_def rules_seen_def new_Rule_def Let_def
  ex_heap_def ex_heap_found_def ex_heap_removed_def ex_rc_hdr_def ex_policy_hdr_def ex_slice_def

lemma ex_find_h: "FindPolicy_h ex_heap ex_rc_hdr ''forwarding'' = (Some 0, ex_heap_found)"
  by (simp add: heap_defs)

lemma ex_remove_h: "RemoveRules_h ex_heap_found 0 [0] = Some (ex_heap_removed, True)"
  by (simp add: heap_defs ex_removed_store_def ex_store_def fun_eq_iff)

text \<open>
  Claim C9, as stated, fails: the copy that \<open>FindPolicy\<close> returns has the slice header
  of the stored policy, so it names the same backing array and the same rule objects.
  \<open>RemoveRules\<close> on the copy with the offset 0 (the call that \<open>DeleteRuleFromPolicy\<close>
  makes before \<open>SetPolicy\<close>) moves the forwarding rule to the front of the array, writes
  a fresh empty rule to the cell left behind and gives the forwarding rule the ordinal 0.
  The configuration is not written and \<open>SetPolicy\<close> is not called, yet its policy, whose
  header still has the length 2, now lists the forwarding rule with ordinal 0 and an
  empty rule, instead of the app-root rule and the forwarding rule with ordinal 1.
\<close>

theorem C9_counterexample:
  "FindPolicy_h ex_heap ex_rc_hdr ''forwarding'' = (Some 0, ex_heap_found)
   \<and> hp_vars ex_heap_found 0 = ex_policy_hdr ex_slice
   \<and> RemoveRules_h ex_heap_found 0 [0] = Some (ex_heap_removed, True)
   \<and> rh_Policies ex_rc_hdr = [ex_policy_hdr ex_slice]
   \<and> rules_seen ex_heap_found (ex_policy_hdr ex_slice) = [Some ex_app, Some ex_fwd]
   \<and> rules_seen ex_heap_removed (ex_policy_hdr ex_slice)
       = [Some (ex_fwd\<lparr>r_Ordinal := 0\<rparr>), Some zero_Rule]"
  using ex_find_h ex_remove_h
  by (simp add: rules_seen_def slice_elems_def ex_heap_found_def ex_heap_removed_def ex_heap_def
      ex_rc_hdr_def ex_policy_hdr_def ex_slice_def ex_removed_store_def ex_store_def)

text \<open>
  Claim C9 (amended): \<open>FindPolicy\<close> returns the address of a fresh variable that holds a
  copy of the first policy whose controls contain \<open>controlType\<close>, and nil, with nothing
  changed, when there is none. Assigning to the copy changes nothing that a policy of
  the configuration reads. The copy has the \<open>Rules\<close> header of the stored policy:
  \<open>RemoveRuleAt\<close> through the copy, with an offset inside the list, changes the backing
  array in place, so that the stored policy lists the remaining rule pointers followed by
  a fresh empty rule, while the copy lists the remaining ones; \<open>RemoveRules\<close> with one
  such offset, on a list of distinct non-nil pointers to rules allocated before, does the
  same and writes the ordinals \<open>0 .. n-2\<close> to the remaining rule objects, which the
  stored policy lists too. \<open>SetPolicy\<close> with a policy of the same name and partition
  puts it in the place of the first policy with that name and partition.
\<close>

theorem C9_find_policy_copy:
  "(fst (FindPolicy_h h rc controlType) = None
      \<longleftrightarrow> (\<forall>pol \<in> set (rh_Policies rc). controlType \<notin> set (ph_Controls pol)))
   \<and> (fst (FindPolicy_h h rc controlType) = None \<longrightarrow> snd (FindPolicy_h h rc controlType) = h)
   \<and> (FindPolicy_h h rc controlType = (Some p, h') \<longrightarrow>
        (\<exists>pre pol post. rh_Policies rc = pre @ pol # post
           \<and> (\<forall>q \<in> set pre. controlType \<notin> set (ph_Controls q))
           \<and> controlType \<in> set (ph_Controls pol)
           \<and> p = hp_next_var h
           \<and> h' = h\<lparr>hp_vars := (hp_vars h)(p := pol), hp_next_var := Suc p\<rparr>))
   \<and> rules_seen (g\<lparr>hp_vars := (hp_vars g)(c := v)\<rparr>) q = rules_seen g q
   \<and> (hp_vars g c = stored \<and> slice_ok g (ph_Rules stored)
        \<and> 0 \<le> offset \<and> offset < int (sl_len (ph_Rules stored)) \<longrightarrow>
        (\<exists>g'. RemoveRuleAt_h g c offset = Some (g', True)
           \<and> slice_elems g' (ph_Rules stored)
               = delete_at (nat offset) (slice_elems g (ph_Rules stored))
                 @ [Some (st_next (hp_store g))]
           \<and> st_rules (hp_store g') (st_next (hp_store g)) = zero_Rule
           \<and> slice_elems g' (ph_Rules (hp_vars g' c))
               = delete_at (nat offset) (slice_elems g (ph_Rules stored))))
   \<and> (hp_vars g c = stored \<and> slice_ok g (ph_Rules stored)
        \<and> 0 \<le> offset \<and> offset < int (sl_len (ph_Rules stored))
        \<and> distinct (slice_elems g (ph_Rules stored))
        \<and> None \<notin> set (slice_elems g (ph_Rules stored))
        \<and> Some (st_next (hp_store g)) \<notin> set (slice_elems g (ph_Rules stored)) \<longrightarrow>
        (\<exists>g'. RemoveRules_h g c [offset] = Some (g', True)
           \<and> slice_elems g' (ph_Rules stored)
               = delete_at (nat offset) (slice_elems g (ph_Rules stored))
                 @ [Some (st_next (hp_store g))]
           \<and> st_rules (hp_store g') (st_next (hp_store g)) = zero_Rule
           \<and> rule_ordinals (hp_store g') (delete_at (nat offset) (slice_elems g (ph_Rules stored)))
               = map (\<lambda>i. Some (int i)) [0 ..< sl_len (ph_Rules stored) - 1]
           \<and> slice_elems g' (ph_Rules (hp_vars g' c))
               = delete_at (nat offset) (slice_elems g (ph_Rules stored))))
   \<and> (rh_Policies rc = pre @ pol # post
        \<and> (\<forall>q \<in> set pre. ph_Name q \<noteq> ph_Name policy \<or> ph_Partition q \<noteq> ph_Partition policy)
        \<and> ph_Name pol = ph_Name policy \<and> ph_Partition pol = ph_Partition policy \<longrightarrow>
        rh_Policies (SetPolicy_h rc policy) = pre @ policy # post)"
proof -
  have a: "fst (FindPolicy_h h rc controlType) = None
      \<longleftrightarrow> (\<forall>pol \<in> set (rh_Policies rc). controlType \<notin> set (ph_Controls pol))"
    by (rule FindPolicy_h_none)
  have b: "fst (FindPolicy_h h rc controlType) = None \<longrightarrow> snd (FindPolicy_h h rc controlType) = h"
    using FindPolicy_h_unchanged [of h rc controlType] by blast
  have c: "FindPolicy_h h rc controlType = (Some p, h') \<longrightarrow>
        (\<exists>pre pol post. rh_Policies rc = pre @ pol # post
           \<and> (\<forall>q \<in> set pre. controlType \<notin> set (ph_Controls q))
           \<and> controlType \<in> set (ph_Controls pol)
           \<and> p = hp_next_var h
           \<and> h' = h\<lparr>hp_vars := (hp_vars h)(p := pol), hp_next_var := Suc p\<rparr>)"
    using FindPolicy_h_some [of h rc controlType p h'] by blast
  have d: "rules_seen (g\<lparr>hp_vars := (hp_vars g)(c := v)\<rparr>) q = rules_seen g q"
    by (simp add: rules_seen_def)
  have e: "hp_vars g c = stored \<and> slice_ok g (ph_Rules stored)
        \<and> 0 \<le> offset \<and> offset < int (sl_len (ph_Rules stored)) \<longrightarrow>
        (\<exists>g'. RemoveRuleAt_h g c offset = Some (g', True)
           \<and> slice_elems g' (ph_Rules stored)
               = delete_at (nat offset) (slice_elems g (ph_Rules stored))
                 @ [Some (st_next (hp_store g))]
           \<and> st_rules (hp_store g') (st_next (hp_store g)) = zero_Rule
           \<and> slice_elems g' (ph_Rules (hp_vars g' c))
               = delete_at (nat offset) (slice_elems g (ph_Rules stored)))"
  proof
    assume hyp: "hp_vars g c = stored \<and> slice_ok g (ph_Rules stored)
        \<and> 0 \<le> offset \<and> offset < int (sl_len (ph_Rules stored))"
    then have h1: "hp_vars g c = stored" and h2: "slice_ok g (ph_Rules stored)"
      and h3: "0 \<le> offset" and h4: "offset < int (sl_len (ph_Rules stored))" by simp_all
    from RemoveRuleAt_h_elems [OF h1 h2 h3 h4] obtain g' where
      r: "RemoveRuleAt_h g c offset = Some (g', True)"
      and el: "slice_elems g' (ph_Rules stored)
         = delete_at (nat offset) (slice_elems g (ph_Rules stored)) @ [Some (st_next (hp_store g))]"
      and st: "hp_store g' = snd (new_Rule (hp_store g) zero_Rule)"
      and vs: "slice_elems g' (ph_Rules (hp_vars g' c))
         = delete_at (nat offset) (slice_elems g (ph_Rules stored))"
      by blast
    have "st_rules (hp_store g') (st_next (hp_store g)) = zero_Rule"
      by (simp add: st new_Rule_def)
    moreover note vs
    ultimately show "\<exists>g'. RemoveRuleAt_h g c offset = Some (g', True)
           \<and> slice_elems g' (ph_Rules stored)
               = delete_at (nat offset) (slice_elems g (ph_Rules stored))
                 @ [Some (st_next (hp_store g))]
           \<and> st_rules (hp_store g') (st_next (hp_store g)) = zero_Rule
           \<and> slice_elems g' (ph_Rules (hp_vars g' c))
               = delete_at (nat offset) (slice_elems g (ph_Rules stored))"
      using r el by blast
  qed
  have f: "hp_vars g c = stored \<and> slice_ok g (ph_Rules stored)
        \<and> 0 \<le> offset \<and> offset < int (sl_len (ph_Rules stored))
        \<and> distinct (slice_elems g (ph_Rules stored))
        \<and> None \<notin> set (slice_elems g (ph_Rules stored))
        \<and> Some (st_next (hp_store g)) \<notin> set (slice_elems g (ph_Rules stored)) \<longrightarrow>
        (\<exists>g'. RemoveRules_h g c [offset] = Some (g', True)
           \<and> slice_elems g' (ph_Rules stored)
               = delete_at (nat offset) (slice_elems g (ph_Rules stored))
                 @ [Some (st_next (hp_store g))]
           \<and> st_rules (hp_store g') (st_next (hp_store g)) = zero_Rule
           \<and> rule_ordinals (hp_store g') (delete_at (nat offset) (slice_elems g (ph_Rules stored)))
               = map (\<lambda>i. Some (int i)) [0 ..< sl_len (ph_Rules stored) - 1]
           \<and> slice_elems g' (ph_Rules (hp_vars g' c))
               = delete_at (nat offset) (slice_elems g (ph_Rules stored)))"
    using RemoveRules_h_single [of g c stored offset] by blast
  have s: "rh_Policies rc = pre @ pol # post
        \<and> (\<forall>q \<in> set pre. ph_Name q \<noteq> ph_Name policy \<or> ph_Partition q \<noteq> ph_Partition policy)
        \<and> ph_Name pol = ph_Name policy \<and> ph_Partition pol = ph_Partition policy \<longrightarrow>
        rh_Policies (SetPolicy_h rc policy) = pre @ policy # post"
    using set_policy_in_h_replaces [of pre policy pol post]
    by (simp add: SetPolicy_h_policies)
  from a b c d e f s show ?thesis by (intro conjI)
qed

theorem C9_find_policy_copy_witness:
  "FindPolicy_h ex_heap ex_rc_hdr ''forwarding'' = (Some 0, ex_heap_found)
   \<and> fst (FindPolicy_h ex_heap ex_rc_hdr ''rewrite'') = None
   \<and> snd (FindPolicy_h ex_heap ex_rc_hdr ''rewrite'') = ex_heap
   \<and> rh_Policies ex_rc_hdr = [] @ ex_policy_hdr ex_slice # []
   \<and> ''forwarding'' \<in> set (ph_Controls (ex_policy_hdr ex_slice))
   \<and> hp_vars ex_heap_found 0 = ex_policy_hdr ex_slice
   \<and> slice_ok ex_heap_found ex_slice
   \<and> slice_elems ex_heap_found ex_slice = [Some 0, Some 1]
   \<and> st_next (hp_store ex_heap_found) = 2
   \<and> rules_seen (ex_heap_found\<lparr>hp_vars := (hp_vars ex_heap_found)
                     (0 := ex_policy_hdr (ex_slice\<lparr>sl_len := 0\<rparr>))\<rparr>) (ex_policy_hdr ex_slice)
       = rules_seen ex_heap_found (ex_policy_hdr ex_slice)
   \<and> (\<exists>g'. RemoveRuleAt_h ex_heap_found 0 0 = Some (g', True)
          \<and> slice_elems g' ex_slice = [Some 1, Some 2]
          \<and> st_rules (hp_store g') 2 = zero_Rule
          \<and> slice_elems g' (ph_Rules (hp_vars g' 0)) = [Some 1])
   \<and> RemoveRules_h ex_heap_found 0 [0] = Some (ex_heap_removed, True)
   \<and> slice_elems ex_heap_removed ex_slice = [Some 1, Some 2]
   \<and> st_rules (hp_store ex_heap_removed) 2 = zero_Rule
   \<and> rule_ordinals (hp_store ex_heap_removed) [Some 1] = [Some 0]
   \<and> rh_Policies (SetPolicy_h ex_rc_hdr (ex_policy_hdr (ex_slice\<lparr>sl_len := 1\<rparr>)))
       = [] @ ex_policy_hdr (ex_slice\<lparr>sl_len := 1\<rparr>) # []"
proof -
  let ?pol = "ex_policy_hdr ex_slice"
  let ?cut = "ex_policy_hdr (ex_slice\<lparr>sl_len := 1\<rparr>)"
  note t = C9_find_policy_copy [where h = ex_heap and rc = ex_rc_hdr and h' = ex_heap_found
      and p = 0 and g = ex_heap_found and c = 0 and stored = ?pol and offset = 0
      and v = "ex_policy_hdr (ex_slice\<lparr>sl_len := 0\<rparr>)" and q = ?pol
      and pre = "[]" and pol = ?pol and post = "[]" and policy = ?cut]
  note t1 = t [where controlType = "''forwarding''"]
  note t2 = t [where controlType = "''rewrite''"]
  have none: "\<forall>pol \<in> set (rh_Policies ex_rc_hdr). ''rewrite'' \<notin> set (ph_Controls pol)"
    by (simp add: ex_rc_hdr_def ex_policy_hdr_def)
  from t2 none have n1: "fst (FindPolicy_h ex_heap ex_rc_hdr ''rewrite'') = None"
    and n2: "snd (FindPolicy_h ex_heap ex_rc_hdr ''rewrite'') = ex_heap"
    by blast+
  from t1 ex_find_h have "\<exists>pre pol post. rh_Policies ex_rc_hdr = pre @ pol # post
           \<and> (\<forall>q \<in> set pre. ''forwarding'' \<notin> set (ph_Controls q))
           \<and> ''forwarding'' \<in> set (ph_Controls pol)
           \<and> (0 :: nat) = hp_next_var ex_heap
           \<and> ex_heap_found = ex_heap\<lparr>hp_vars := (hp_vars ex_heap)(0 := pol), hp_next_var := Suc 0\<rparr>"
    by blast
  then have fc: "''forwarding'' \<in> set (ph_Controls ?pol)"
    by (auto simp: ex_rc_hdr_def Cons_eq_append_conv)
  have pols: "rh_Policies ex_rc_hdr = [] @ ?pol # []" by (simp add: ex_rc_hdr_def)
  have cp: "hp_vars ex_heap_found 0 = ?pol" by (simp add: ex_heap_found_def)
  have sl: "ph_Rules ?pol = ex_slice" by (simp add: ex_policy_hdr_def)
  have ok0: "slice_ok ex_heap_found ex_slice"
    by (simp add: slice_ok_def ex_heap_found_def ex_heap_def ex_slice_def)
  have el0: "slice_elems ex_heap_found ex_slice = [Some 0, Some 1]"
    by (simp add: slice_elems_def ex_heap_found_def ex_heap_def ex_slice_def)
  have ok: "slice_ok ex_heap_found (ph_Rules ?pol)" using ok0 by (simp only: sl)
  have el: "slice_elems ex_heap_found (ph_Rules ?pol) = [Some 0, Some 1]"
    using el0 by (simp only: sl)
  have nx: "st_next (hp_store ex_heap_found) = 2"
    by (simp add: ex_heap_found_def ex_heap_def ex_store_def)
  have len: "sl_len (ph_Rules ?pol) = 2" by (simp add: ex_policy_hdr_def ex_slice_def)
  have len0: "sl_len ex_slice = 2" by (simp add: ex_slice_def)
  have o: "(0 :: int) \<le> 0" "(0 :: int) < int (sl_len (ph_Rules ?pol))" by (simp_all add: len)
  have dist: "distinct (slice_elems ex_heap_found (ph_Rules ?pol))"
    "None \<notin> set (slice_elems ex_heap_found (ph_Rules ?pol))"
    "Some (st_next (hp_store ex_heap_found)) \<notin> set (slice_elems ex_heap_found (ph_Rules ?pol))"
    by (simp_all add: el nx)
  from t1 have fa: "rules_seen (ex_heap_found\<lparr>hp_vars := (hp_vars ex_heap_found)
                     (0 := ex_policy_hdr (ex_slice\<lparr>sl_len := 0\<rparr>))\<rparr>) ?pol
       = rules_seen ex_heap_found ?pol"
    by blast
  from t1 cp ok o have "\<exists>g'. RemoveRuleAt_h ex_heap_found 0 0 = Some (g', True)
           \<and> slice_elems g' (ph_Rules ?pol)
               = delete_at (nat 0) (slice_elems ex_heap_found (ph_Rules ?pol))
                 @ [Some (st_next (hp_store ex_heap_found))]
           \<and> st_rules (hp_store g') (st_next (hp_store ex_heap_found)) = zero_Rule
           \<and> slice_elems g' (ph_Rules (hp_vars g' 0))
               = delete_at (nat 0) (slice_elems ex_heap_found (ph_Rules ?pol))"
    by blast
  then have ra: "\<exists>g'. RemoveRuleAt_h ex_heap_found 0 0 = Some (g', True)
          \<and> slice_elems g' ex_slice = [Some 1, Some 2]
          \<and> st_rules (hp_store g') 2 = zero_Rule
          \<and> slice_elems g' (ph_Rules (hp_vars g' 0)) = [Some 1]"
    unfolding sl el0 nx len0 by (simp add: delete_at_def)
  from t1 cp ok o dist have "\<exists>g'. RemoveRules_h ex_heap_found 0 [0] = Some (g', True)
           \<and> slice_elems g' (ph_Rules ?pol)
               = delete_at (nat 0) (slice_elems ex_heap_found (ph_Rules ?pol))
                 @ [Some (st_next (hp_store ex_heap_found))]
           \<and> st_rules (hp_store g') (st_next (hp_store ex_heap_found)) = zero_Rule
           \<and> rule_ordinals (hp_store g')
                (delete_at (nat 0) (slice_elems ex_heap_found (ph_Rules ?pol)))
               = map (\<lambda>i. Some (int i)) [0 ..< sl_len (ph_Rules ?pol) - 1]
           \<and> slice_elems g' (ph_Rules (hp_vars g' 0))
               = delete_at (nat 0) (slice_elems ex_heap_found (ph_Rules ?pol))"
    by blast
  then obtain g' where
    r: "RemoveRules_h ex_heap_found 0 [0] = Some (g', True)"
    and e': "slice_elems g' ex_slice = [Some 1, Some 2]"
    and z': "st_rules (hp_store g') 2 = zero_Rule"
    and o': "rule_ordinals (hp_store g') [Some 1] = [Some 0]"
    unfolding sl el0 nx len0 by (auto simp: delete_at_def)
  from r ex_remove_h have g': "g' = ex_heap_removed" by simp
  have nm: "\<forall>q \<in> set []. ph_Name q \<noteq> ph_Name ?cut \<or> ph_Partition q \<noteq> ph_Partition ?cut"
    by simp
  have same: "ph_Name ?pol = ph_Name ?cut" "ph_Partition ?pol = ph_Partition ?cut"
    by (simp_all add: ex_policy_hdr_def)
  from t1 pols nm same
  have sp: "rh_Policies (SetPolicy_h ex_rc_hdr ?cut) = [] @ ?cut # []" by blast
  from ex_find_h n1 n2 pols fc cp ok0 el0 nx fa ra ex_remove_h e' z' o' sp
  show ?thesis unfolding g' by (intro conjI)
qed

lemma RemoveRuleAt_h_receiver:
  assumes ok: "slice_ok h (ph_Rules (hp_vars h p))"
  shows "map_option (\<lambda>(h', b). (hp_store h', policy_value h' (hp_vars h' p), b))
           (RemoveRuleAt_h h p offset)
       = RemoveRuleAt (hp_store h) (policy_value h (hp_vars h p)) offset"
proof -
  define pol where "pol = hp_vars h p"
  define n where "n = sl_len (ph_Rules pol)"
  have c: "hp_vars h p = pol" by (simp add: pol_def)
  have ok': "slice_ok h (ph_Rules pol)" using ok by (simp add: pol_def)
  have len: "length (slice_elems h (ph_Rules pol)) = n"
    using ok' by (simp add: slice_elems_length n_def)
  consider "offset \<ge> int n" | "offset < 0" | "0 \<le> offset" "offset < int n"
    by linarith
  then show ?thesis
  proof cases
    case 1
    then show ?thesis
      by (simp add: RemoveRuleAt_h_def RemoveRuleAt_def Let_def policy_value_def len c n_def [symmetric])
  next
    case 2
    then show ?thesis
      by (simp add: RemoveRuleAt_h_def RemoveRuleAt_def Let_def policy_value_def len c n_def [symmetric])
  next
    case 3
    from RemoveRuleAt_h_elems [OF c ok' 3(1) 3(2) [unfolded n_def]] obtain h' where
      run: "RemoveRuleAt_h h p offset = Some (h', True)"
      and el: "slice_elems h' (ph_Rules pol)
         = delete_at (nat offset) (slice_elems h (ph_Rules pol)) @ [Some (st_next (hp_store h))]"
      and st: "hp_store h' = snd (new_Rule (hp_store h) zero_Rule)"
      and vs: "hp_vars h' = (hp_vars h)(p := pol\<lparr>ph_Rules := (ph_Rules pol)\<lparr>sl_len := n - 1\<rparr>\<rparr>)"
      unfolding n_def by blast
    have "slice_elems h' ((ph_Rules pol)\<lparr>sl_len := n - 1\<rparr>)
        = take (n - 1) (slice_elems h' (ph_Rules pol))"
      by (rule slice_elems_prefix) (simp add: n_def)
    moreover have "length (delete_at (nat offset) (slice_elems h (ph_Rules pol))) = n - 1"
      using 3 len by (simp add: length_delete_at)
    ultimately have own: "slice_elems h' ((ph_Rules pol)\<lparr>sl_len := n - 1\<rparr>)
        = delete_at (nat offset) (slice_elems h (ph_Rules pol))"
      by (simp add: el)
    show ?thesis
      using 3 own by (simp add: run RemoveRuleAt_def policy_value_def len c st vs)
  qed
qed

end
